(* ===== verification/Pgp_Prelude.thy ===== *)
theory Pgp_Prelude
  imports Main "HOL-Library.Word" "HOL-Library.Char_ord" "HOL-Library.List_Lexorder"
    "HOL-Library.Product_Lexorder"
begin

text \<open>
  Shared vocabulary of the development: byte strings, time, return codes and log levels of
  nginx, the few functions of the C library that the module calls on raw buffers
  (\<open>memcmp\<close>, \<open>strncmp\<close>, \<open>strtok_r\<close>), and the generic lemmas about lists and byte strings that
  the component theories use.  The collection \<open>step_defs\<close> gathers the definitions of the
  steps of which a longer operation is composed.
\<close>

named_theorems step_defs \<open>definitions of the steps of a composed operation\<close>

section \<open>Types\<close>

text \<open>
  A buffer \<open>(u_char *data, size_t len)\<close> is the list of its bytes; \<open>time_t\<close> is signed and wide
  enough for every sum the module forms, so it is an \<open>int\<close>.
\<close>

type_synonym bytes = string
type_synonym time_t = int

text \<open>
  \<open>ngx_int_t\<close> results: the negative nginx codes and the (positive) HTTP status codes that the
  handlers return through the same type.
\<close>

datatype ngx_rc = NGX_OK | NGX_ERROR | NGX_DECLINED | NGX_ABORT | NGX_DONE | NGX_HTTP nat

abbreviation NGX_HTTP_OK :: nat where "NGX_HTTP_OK \<equiv> 200"
abbreviation NGX_HTTP_SEE_OTHER :: nat where "NGX_HTTP_SEE_OTHER \<equiv> 303"
abbreviation NGX_HTTP_FORBIDDEN :: nat where "NGX_HTTP_FORBIDDEN \<equiv> 403"
abbreviation NGX_HTTP_REQUEST_ENTITY_TOO_LARGE :: nat
  where "NGX_HTTP_REQUEST_ENTITY_TOO_LARGE \<equiv> 413"
abbreviation NGX_HTTP_TOO_MANY_REQUESTS :: nat where "NGX_HTTP_TOO_MANY_REQUESTS \<equiv> 429"
abbreviation NGX_HTTP_INTERNAL_SERVER_ERROR :: nat
  where "NGX_HTTP_INTERNAL_SERVER_ERROR \<equiv> 500"
abbreviation NGX_HTTP_SERVICE_UNAVAILABLE :: nat
  where "NGX_HTTP_SERVICE_UNAVAILABLE \<equiv> 503"

text \<open>Log levels; 0 is the "nothing to log" value of the deferred diagnostics.\<close>

abbreviation NGX_LOG_EMERG :: nat where "NGX_LOG_EMERG \<equiv> 1"
abbreviation NGX_LOG_ALERT :: nat where "NGX_LOG_ALERT \<equiv> 2"
abbreviation NGX_LOG_ERR :: nat where "NGX_LOG_ERR \<equiv> 4"
abbreviation NGX_LOG_WARN :: nat where "NGX_LOG_WARN \<equiv> 5"
abbreviation NGX_LOG_NOTICE :: nat where "NGX_LOG_NOTICE \<equiv> 6"
abbreviation NGX_LOG_INFO :: nat where "NGX_LOG_INFO \<equiv> 7"

text \<open>Bytes with a name.\<close>

abbreviation LF :: char where "LF \<equiv> CHR 0x0A"
abbreviation CR :: char where "CR \<equiv> CHR 0x0D"
abbreviation TAB :: char where "TAB \<equiv> CHR 0x09"
abbreviation SPACE :: char where "SPACE \<equiv> CHR 0x20"
abbreviation NUL :: char where "NUL \<equiv> CHR 0x00"
abbreviation RS :: char where "RS \<equiv> CHR 0x1E"
abbreviation PIPE :: char where "PIPE \<equiv> CHR 0x7C"
abbreviation CRLF :: bytes where "CRLF \<equiv> [CHR 0x0D, CHR 0x0A]"

section \<open>The C library on buffers\<close>

text \<open>\<open>memcmp (s, t, k)\<close>: the sign of the first difference among the first \<open>k\<close> bytes.\<close>

fun memcmp :: "bytes \<Rightarrow> bytes \<Rightarrow> nat \<Rightarrow> int" where
  "memcmp (a # s) (b # t) (Suc k) =
     (if a = b then memcmp s t k else if a < b then -1 else 1)"
| "memcmp s t k = 0"

text \<open>\<open>strncmp (s, lit, strlen (lit)) == 0\<close> for a literal \<open>lit\<close>: \<open>lit\<close> is a prefix of \<open>s\<close>.\<close>

definition starts_with :: "bytes \<Rightarrow> bytes \<Rightarrow> bool" where
  "starts_with lit s \<longleftrightarrow> take (length lit) s = lit"

text \<open>The C string held in a buffer: the bytes before its first NUL.\<close>

definition c_str :: "bytes \<Rightarrow> bytes" where
  "c_str s = takeWhile (\<lambda>c. c \<noteq> NUL) s"

text \<open>
  All the tokens that repeated calls of \<open>strtok_r (s, d)\<close> return: the maximal non-empty runs
  of bytes different from the delimiter.  \<open>tok\<close> is the token being collected.
\<close>

fun strtok_from :: "char \<Rightarrow> bytes \<Rightarrow> bytes \<Rightarrow> bytes list" where
  "strtok_from d tok [] = (if tok = [] then [] else [tok])"
| "strtok_from d tok (c # s) =
     (if c = d then (if tok = [] then strtok_from d [] s else tok # strtok_from d [] s)
      else strtok_from d (tok @ [c]) s)"

definition strtok_all :: "char \<Rightarrow> bytes \<Rightarrow> bytes list" where
  "strtok_all d s = strtok_from d [] s"

section \<open>Shared lemmas\<close>

lemma memcmp_refl [simp]: "memcmp s s k = 0"
proof (induction s arbitrary: k)
  case (Cons a s)
  then show ?case by (cases k) auto
qed simp

lemma memcmp_zero_iff:
  "length s = k \<Longrightarrow> length t = k \<Longrightarrow> memcmp s t k = 0 \<longleftrightarrow> s = t"
  by (induction s t k rule: memcmp.induct) auto

lemma memcmp_less_iff:
  "length s = k \<Longrightarrow> length t = k \<Longrightarrow> memcmp s t k < 0 \<longleftrightarrow> s < t"
  by (induction s t k rule: memcmp.induct) auto

lemma starts_with_append [simp]: "starts_with lit (lit @ s)"
  by (simp add: starts_with_def)

lemma starts_withD: "starts_with lit s \<Longrightarrow> s = lit @ drop (length lit) s"
  by (metis append_take_drop_id starts_with_def)

lemma set_c_str: "c \<in> set (c_str s) \<Longrightarrow> c \<noteq> NUL \<and> c \<in> set s"
  by (auto simp: c_str_def dest: set_takeWhileD)

lemma strtok_from_set:
  "line \<in> set (strtok_from d tok s) \<Longrightarrow> d \<notin> set tok
    \<Longrightarrow> line \<noteq> [] \<and> d \<notin> set line \<and> set line \<subseteq> set tok \<union> set s"
  by (induction d tok s rule: strtok_from.induct) (fastforce split: if_splits)+

lemma strtok_all_set:
  "line \<in> set (strtok_all d s) \<Longrightarrow> line \<noteq> [] \<and> d \<notin> set line \<and> set line \<subseteq> set s"
  using strtok_from_set [of line d "[]" s] by (simp add: strtok_all_def)

lemma strtok_from_line:
  "d \<notin> set line \<Longrightarrow> tok @ line \<noteq> [] \<Longrightarrow>
     strtok_from d tok (line @ d # s) = (tok @ line) # strtok_from d [] s"
  by (induction line arbitrary: tok) auto

lemma strtok_all_line:
  "d \<notin> set line \<Longrightarrow> line \<noteq> [] \<Longrightarrow> strtok_all d (line @ d # s) = line # strtok_all d s"
  by (simp add: strtok_all_def strtok_from_line)

text \<open>The token list unfolds the way a caller sees it: skip delimiters, take a token, go on.\<close>

lemma strtok_all_skip: "strtok_all d (dropWhile (\<lambda>c. c = d) s) = strtok_all d s"
  by (induction s) (auto simp: strtok_all_def)

lemma strtok_from_token:
  "tok @ takeWhile (\<lambda>c. c \<noteq> d) s \<noteq> [] \<Longrightarrow>
     strtok_from d tok s = (tok @ takeWhile (\<lambda>c. c \<noteq> d) s) # strtok_from d [] (dropWhile (\<lambda>c. c \<noteq> d) s)"
  by (induction d tok s rule: strtok_from.induct) auto

lemma strtok_all_token:
  "s \<noteq> [] \<Longrightarrow> hd s \<noteq> d \<Longrightarrow>
     strtok_all d s = takeWhile (\<lambda>c. c \<noteq> d) s # strtok_all d (dropWhile (\<lambda>c. c \<noteq> d) s)"
  by (cases s) (auto simp: strtok_all_def strtok_from_token)

lemma takeWhile_append_stop [simp]:
  "c \<notin> set s \<Longrightarrow> takeWhile (\<lambda>x. x \<noteq> c) (s @ c # t) = s"
  by (induction s) auto

lemma dropWhile_append_stop [simp]:
  "c \<notin> set s \<Longrightarrow> dropWhile (\<lambda>x. x \<noteq> c) (s @ c # t) = c # t"
  by (induction s) auto

lemma remove1_distinct_set [simp]:
  "distinct xs \<Longrightarrow> set (remove1 x xs) = set xs - {x}"
  by (rule set_remove1_eq)

lemma remove1_last: "distinct xs \<Longrightarrow> xs \<noteq> [] \<Longrightarrow> remove1 (last xs) xs = butlast xs"
  by (cases xs rule: rev_cases) (auto simp: remove1_append)

lemma sorted_wrt_remove1: "sorted_wrt P xs \<Longrightarrow> sorted_wrt P (remove1 x xs)"
  by (induction xs) (auto dest: notin_set_remove1 set_remove1_subset [THEN subsetD])

lemma sorted_wrt_map_cong:
  "(\<And>x. x \<in> set xs \<Longrightarrow> f x = g x) \<Longrightarrow> sorted_wrt P (map f xs) \<longleftrightarrow> sorted_wrt P (map g xs)"
  by (metis map_cong)

lemma append_separator_inject:
  assumes "c \<notin> set a" "c \<notin> set b" "a @ c # s = b @ c # t"
  shows "a = b \<and> s = t"
  using assms by (metis append_eq_append_conv2 append_same_eq list.sel(3) list.set_intros(1)
      same_append_eq takeWhile_append_stop)

end
