(* ===== verification/Ngx_Api.thy ===== *)
theory Ngx_Api
  imports Pgp_Prelude "HOL-Library.Tree"
begin

text \<open>
  The functions of nginx and OpenSSL that the module calls and whose source is not part of the
  repository.  They are parameters of the model: one record for the string, number and MAC
  helpers (\<open>ngx_lib\<close>), one for the shared-memory data structures (\<open>ngx_shm\<close>).  The locales
  \<open>ngx_core_api\<close> and \<open>ngx_shm_api\<close> state what the callers rely on, as documented by nginx.
  Reference implementations at the end of the theory show that the contracts can be met.
\<close>

section \<open>Strings, numbers, checksums and MACs\<close>

text \<open>
  \<^item> \<open>ngx_crc32_short s\<close>: the 32-bit checksum used as tree key;
  \<^item> \<open>ngx_strlchr s c\<close>: the offset of the first \<open>c\<close> in the buffer, \<open>None\<close> for NULL;
  \<^item> \<open>ngx_atotm s\<close>: the decimal number in \<open>s\<close>, \<open>-1\<close> (NGX_ERROR) if it is not one;
  \<^item> \<open>ngx_fmt_T n\<close>: what \<open>ngx_sprintf ("%T", n)\<close> writes (\<open>%l\<close> and \<open>%uz\<close> write the same digits
    for the non-negative values the module prints);
  \<^item> \<open>ngx_hextoi1 c\<close>: \<open>ngx_hextoi (&c, 1)\<close>, \<open>None\<close> for NGX_ERROR;
  \<^item> \<open>ngx_hex_dump s\<close>: two lower-case hex digits per byte;
  \<^item> \<open>ngx_tolower c\<close>: ASCII lower case;
  \<^item> \<open>HMAC_sha256 k m\<close>: the digest of the streaming HMAC over \<open>m\<close>, \<open>None\<close> if OpenSSL fails.
\<close>

record ngx_lib =
  ngx_crc32_short :: "bytes \<Rightarrow> 32 word"
  ngx_strlchr :: "bytes \<Rightarrow> char \<Rightarrow> nat option"
  ngx_atotm :: "bytes \<Rightarrow> time_t"
  ngx_fmt_T :: "time_t \<Rightarrow> bytes"
  ngx_hextoi1 :: "char \<Rightarrow> nat option"
  ngx_hex_dump :: "bytes \<Rightarrow> bytes"
  ngx_tolower :: "char \<Rightarrow> char"
  HMAC_sha256 :: "bytes \<Rightarrow> bytes \<Rightarrow> bytes option"

definition first_index :: "bytes \<Rightarrow> char \<Rightarrow> nat option" where
  "first_index s c = (if c \<in> set s then Some (length (takeWhile (\<lambda>x. x \<noteq> c) s)) else None)"

definition is_digit :: "char \<Rightarrow> bool" where
  "is_digit c \<longleftrightarrow> CHR ''0'' \<le> c \<and> c \<le> CHR ''9''"

definition is_lower_hex :: "char \<Rightarrow> bool" where
  "is_lower_hex c \<longleftrightarrow> is_digit c \<or> (CHR ''a'' \<le> c \<and> c \<le> CHR ''f'')"

text \<open>The largest value of a 64-bit \<open>time_t\<close>.\<close>

definition time_max :: time_t where
  "time_max = 2 ^ 63 - 1"

text \<open>Decimal digits, written and read back.\<close>

fun fmt_nat :: "nat \<Rightarrow> bytes" where
  "fmt_nat n = (if n < 10 then [char_of (48 + n)] else fmt_nat (n div 10) @ [char_of (48 + n mod 10)])"

declare fmt_nat.simps [simp del]

fun ato_nat :: "nat \<Rightarrow> bytes \<Rightarrow> nat option" where
  "ato_nat v [] = Some v"
| "ato_nat v (c # s) = (if is_digit c then ato_nat (10 * v + (of_char c - 48)) s else None)"

lemma is_digit_char_of: "d < 10 \<Longrightarrow> is_digit (char_of (48 + d :: nat))"
  by (simp add: is_digit_def less_eq_char_def)

lemma fmt_nat_digits: "list_all is_digit (fmt_nat n)"
proof (induction n rule: fmt_nat.induct)
  case (1 n)
  then show ?case
    by (subst fmt_nat.simps) (simp add: is_digit_char_of)
qed

lemma fmt_nat_nonempty [simp]: "fmt_nat n \<noteq> []"
  by (subst fmt_nat.simps) simp

lemma ato_nat_append:
  "list_all is_digit s \<Longrightarrow> ato_nat v (s @ t) = (case ato_nat v s of None \<Rightarrow> None | Some w \<Rightarrow> ato_nat w t)"
  by (induction s arbitrary: v) auto

lemma ato_fmt: "ato_nat 0 (fmt_nat n) = Some n"
proof (induction n rule: fmt_nat.induct)
  case (1 n)
  show ?case
  proof (cases "n < 10")
    case True
    then show ?thesis by (subst fmt_nat.simps) (simp add: is_digit_char_of)
  next
    case False
    then have "ato_nat 0 (fmt_nat (n div 10)) = Some (n div 10)" using "1.IH" by simp
    then show ?thesis using False
      by (subst fmt_nat.simps) (simp add: is_digit_char_of ato_nat_append fmt_nat_digits)
  qed
qed

lemma fmt_nat_len: "n < 10 ^ k \<Longrightarrow> 0 < k \<Longrightarrow> length (fmt_nat n) \<le> k"
proof (induction k arbitrary: n)
  case (Suc k)
  show ?case
  proof (cases "n < 10")
    case True
    then show ?thesis by (subst fmt_nat.simps) simp
  next
    case False
    then have "0 < k" using Suc.prems by (cases k) auto
    moreover have "n div 10 < 10 ^ k" using Suc.prems by (simp add: less_mult_imp_div_less mult.commute)
    ultimately show ?thesis using Suc.IH [of "n div 10"] False by (subst fmt_nat.simps) simp
  qed
qed simp

definition hex_upper :: "nat \<Rightarrow> char" where
  "hex_upper n = char_of (if n < 10 then 48 + n else 55 + n)"

locale ngx_core_api =
  fixes ngx :: ngx_lib
  assumes strlchr: "ngx_strlchr ngx s c = first_index s c"
    and atotm_fmt: "0 \<le> n \<Longrightarrow> n \<le> time_max \<Longrightarrow> ngx_atotm ngx (ngx_fmt_T ngx n) = n"
    and atotm_range: "ngx_atotm ngx s = -1 \<or> 0 \<le> ngx_atotm ngx s"
    and fmt_decimal: "0 \<le> n \<Longrightarrow> ngx_fmt_T ngx n = fmt_nat (nat n)"
    and hex_dump_len: "length (ngx_hex_dump ngx s) = 2 * length s"
    and hex_dump_hex: "list_all is_lower_hex (ngx_hex_dump ngx s)"
    and hextoi_upper: "d < 16 \<Longrightarrow> ngx_hextoi1 ngx (hex_upper d) = Some d"
    and hmac_len: "HMAC_sha256 ngx k m = Some md \<Longrightarrow> length md = 32"
begin

lemma strlchr_None [simp]: "ngx_strlchr ngx s c = None \<longleftrightarrow> c \<notin> set s"
  by (simp add: strlchr first_index_def)

lemma strlchr_Some:
  "ngx_strlchr ngx s c = Some i \<longleftrightarrow>
     i < length s \<and> s ! i = c \<and> c \<notin> set (take i s)"
proof
  assume "ngx_strlchr ngx s c = Some i"
  then have mem: "c \<in> set s" and i: "i = length (takeWhile (\<lambda>x. x \<noteq> c) s)"
    by (auto simp: strlchr first_index_def split: if_splits)
  from mem have "i < length s"
    unfolding i by (induction s) auto
  moreover from this have "s ! i = c" unfolding i
    by (metis (mono_tags, lifting) nth_length_takeWhile)
  moreover have "take i s = takeWhile (\<lambda>x. x \<noteq> c) s" unfolding i by (metis takeWhile_eq_take)
  then have "c \<notin> set (take i s)" by (auto dest: set_takeWhileD)
  ultimately show "i < length s \<and> s ! i = c \<and> c \<notin> set (take i s)" by simp
next
  assume i: "i < length s \<and> s ! i = c \<and> c \<notin> set (take i s)"
  then have "s = take i s @ c # drop (Suc i) s" by (metis id_take_nth_drop)
  then have "takeWhile (\<lambda>x. x \<noteq> c) s = take i s"
    using i by (metis takeWhile_append_stop)
  then show "ngx_strlchr ngx s c = Some i"
    using i by (auto simp: strlchr first_index_def)
qed

lemma strlchr_append [simp]:
  "c \<notin> set s \<Longrightarrow> ngx_strlchr ngx (s @ c # t) c = Some (length s)"
  by (simp add: strlchr first_index_def)

lemma fmt_digits: "0 \<le> n \<Longrightarrow> list_all is_digit (ngx_fmt_T ngx n)"
  by (simp add: fmt_decimal fmt_nat_digits)

lemma fmt_not_sep: "0 \<le> n \<Longrightarrow> \<not> is_digit c \<Longrightarrow> c \<notin> set (ngx_fmt_T ngx n)"
  using fmt_digits [of n] by (auto simp: list_all_iff)

lemma fmt_no_pipe [simp]: "0 \<le> n \<Longrightarrow> PIPE \<notin> set (ngx_fmt_T ngx n)"
  by (rule fmt_not_sep) (auto simp: is_digit_def less_eq_char_def)

lemma hex_dump_not_sep: "\<not> is_lower_hex c \<Longrightarrow> c \<notin> set (ngx_hex_dump ngx s)"
  using hex_dump_hex [of s] by (auto simp: list_all_iff)

lemma hex_dump_no_pipe [simp]: "PIPE \<notin> set (ngx_hex_dump ngx s)"
  by (rule hex_dump_not_sep) (auto simp: is_lower_hex_def is_digit_def less_eq_char_def)

lemma hex_dump_no_LF [simp]: "LF \<notin> set (ngx_hex_dump ngx s)"
  by (rule hex_dump_not_sep) (auto simp: is_lower_hex_def is_digit_def less_eq_char_def)

lemma hex_dump_no_CR [simp]: "CR \<notin> set (ngx_hex_dump ngx s)"
  by (rule hex_dump_not_sep) (auto simp: is_lower_hex_def is_digit_def less_eq_char_def)

lemma fmt_no_LF [simp]: "0 \<le> n \<Longrightarrow> LF \<notin> set (ngx_fmt_T ngx n)"
  by (rule fmt_not_sep) (auto simp: is_digit_def less_eq_char_def)

end

section \<open>Shared memory: red-black tree and slab pool\<close>

text \<open>
  Nodes live at addresses handed out by the slab allocator.  \<open>ngx_rbtree_insert\<close> calls the
  module's own insertion callback and then repaints and rotates: that second half is
  \<open>rbt_fixup\<close>.  The state of the slab pool is abstract (type \<open>'p\<close>); \<open>links_size\<close> is the space
  that a tree node and a queue link take at the head of a node.
\<close>

type_synonym addr = nat

record 'p ngx_shm =
  links_size :: nat
  rbt_fixup :: "addr tree \<Rightarrow> addr tree"
  rbt_delete :: "addr tree \<Rightarrow> addr \<Rightarrow> addr tree"
  slab_alloc :: "'p \<Rightarrow> nat \<Rightarrow> (addr \<times> 'p) option"
  slab_free :: "'p \<Rightarrow> addr \<Rightarrow> 'p"

text \<open>
  Rotations keep the in-order sequence, deletion takes one node out of it, and the allocator
  never hands out an address that is still in use; \<open>live p\<close> is the set of addresses in use.
\<close>

locale ngx_shm_api =
  fixes shm :: "'p ngx_shm"
    and live :: "'p \<Rightarrow> addr set"
  assumes fixup_inorder: "inorder (rbt_fixup shm t) = inorder t"
    and delete_inorder:
      "distinct (inorder t) \<Longrightarrow> a \<in> set_tree t \<Longrightarrow> inorder (rbt_delete shm t a) = remove1 a (inorder t)"
    and alloc_fresh: "slab_alloc shm p n = Some (a, p') \<Longrightarrow> a \<notin> live p \<and> live p' = insert a (live p)"
    and free_live: "live (slab_free shm p a) = live p - {a}"

section \<open>Reference implementations\<close>

definition atotm_ref :: "bytes \<Rightarrow> time_t" where
  "atotm_ref s = (case ato_nat 0 s of
       None \<Rightarrow> -1
     | Some v \<Rightarrow> if s = [] \<or> int v > time_max then -1 else int v)"

definition hex_digit_ref :: "nat \<Rightarrow> char" where
  "hex_digit_ref n = char_of (if n < 10 then 48 + n else 87 + n)"

definition hex_dump_ref :: "bytes \<Rightarrow> bytes" where
  "hex_dump_ref s = concat (map (\<lambda>c. [hex_digit_ref (of_char c div 16), hex_digit_ref (of_char c mod 16)]) s)"

definition hextoi_ref :: "char \<Rightarrow> nat option" where
  "hextoi_ref c =
     (if CHR ''0'' \<le> c \<and> c \<le> CHR ''9'' then Some (of_char c - 48)
      else if CHR ''a'' \<le> c \<and> c \<le> CHR ''f'' then Some (of_char c - 87)
      else if CHR ''A'' \<le> c \<and> c \<le> CHR ''F'' then Some (of_char c - 55)
      else None)"

definition tolower_ref :: "char \<Rightarrow> char" where
  "tolower_ref c = (if CHR ''A'' \<le> c \<and> c \<le> CHR ''Z'' then char_of (of_char c + (32 :: nat)) else c)"

text \<open>A keyed checksum spread over 32 bytes stands for the MAC, an additive checksum for the CRC.\<close>

definition sum_ref :: "nat \<Rightarrow> bytes \<Rightarrow> nat" where
  "sum_ref k s = fold (\<lambda>c v. (v * 31 + of_char c) mod 65521) s k"

definition hmac_ref :: "bytes \<Rightarrow> bytes \<Rightarrow> bytes option" where
  "hmac_ref k m = Some (map (\<lambda>i. char_of (sum_ref (sum_ref i k) m mod 256)) [0..<32])"

definition ngx_ref :: ngx_lib where
  "ngx_ref = \<lparr>ngx_crc32_short = (\<lambda>s. of_nat (sum_ref 0 s)), ngx_strlchr = first_index,
     ngx_atotm = atotm_ref, ngx_fmt_T = (\<lambda>n. fmt_nat (nat n)), ngx_hextoi1 = hextoi_ref,
     ngx_hex_dump = hex_dump_ref, ngx_tolower = tolower_ref, HMAC_sha256 = hmac_ref\<rparr>"

text \<open>An allocator that hands out increasing addresses until its capacity is used up, and an unbalanced tree.\<close>

record slab_ref =
  next_addr :: nat
  capacity :: nat
  in_use :: "addr list"

fun take_min :: "addr tree \<Rightarrow> addr \<Rightarrow> addr tree \<Rightarrow> addr \<times> addr tree" where
  "take_min Leaf a r = (a, r)"
| "take_min (Node ll la lr) a r = (case take_min ll la lr of (m, l') \<Rightarrow> (m, Node l' a r))"

definition join_ref :: "addr tree \<Rightarrow> addr tree \<Rightarrow> addr tree" where
  "join_ref l r = (case r of Leaf \<Rightarrow> l | Node rl ra rr \<Rightarrow> (case take_min rl ra rr of (m, r') \<Rightarrow> Node l m r'))"

fun delete_ref :: "addr tree \<Rightarrow> addr \<Rightarrow> addr tree" where
  "delete_ref Leaf a = Leaf"
| "delete_ref (Node l b r) a =
     (if a = b then join_ref l r
      else if a \<in> set_tree l then Node (delete_ref l a) b r else Node l b (delete_ref r a))"

definition shm_ref :: "slab_ref ngx_shm" where
  "shm_ref = \<lparr>links_size = 56, rbt_fixup = (\<lambda>t. t), rbt_delete = delete_ref,
     slab_alloc = (\<lambda>p n. if length (in_use p) < capacity p \<and> next_addr p \<notin> set (in_use p)
        then Some (next_addr p, p\<lparr>next_addr := Suc (next_addr p), in_use := next_addr p # in_use p\<rparr>)
        else None),
     slab_free = (\<lambda>p a. p\<lparr>in_use := filter (\<lambda>b. b \<noteq> a) (in_use p)\<rparr>)\<rparr>"

definition live_ref :: "slab_ref \<Rightarrow> addr set" where
  "live_ref p = set (in_use p)"

definition pool_ref :: "nat \<Rightarrow> slab_ref" where
  "pool_ref n = \<lparr>next_addr = 0, capacity = n, in_use = []\<rparr>"

subsection \<open>The reference implementations meet the contracts\<close>

lemma hex_digit_ref_hex: "n < 16 \<Longrightarrow> is_lower_hex (hex_digit_ref n)"
  by (auto simp: hex_digit_ref_def is_lower_hex_def is_digit_def less_eq_char_def)

lemma hex_dump_ref_hex: "list_all is_lower_hex (hex_dump_ref s)"
proof (induction s)
  case (Cons c s)
  have "of_char c < (256 :: nat)" by simp
  then have "of_char c div 16 < (16 :: nat)" by linarith
  with Cons show ?case by (auto simp: hex_dump_ref_def hex_digit_ref_hex)
qed (simp add: hex_dump_ref_def)

lemma hex_dump_ref_len: "length (hex_dump_ref s) = 2 * length s"
  by (induction s) (simp_all add: hex_dump_ref_def)

interpretation ref_core: ngx_core_api ngx_ref
proof
  show "0 \<le> n \<Longrightarrow> n \<le> time_max \<Longrightarrow> ngx_atotm ngx_ref (ngx_fmt_T ngx_ref n) = n" for n
    by (simp add: ngx_ref_def atotm_ref_def ato_fmt)
  show "ngx_atotm ngx_ref s = -1 \<or> 0 \<le> ngx_atotm ngx_ref s" for s
    by (auto simp: ngx_ref_def atotm_ref_def split: option.splits)
  show "ngx_hextoi1 ngx_ref (hex_upper d) = Some d" if "d < 16" for d
    using that by (auto simp: ngx_ref_def hextoi_ref_def hex_upper_def less_eq_char_def)
  show "HMAC_sha256 ngx_ref k m = Some md \<Longrightarrow> length md = 32" for k m md
    by (auto simp: ngx_ref_def hmac_ref_def)
qed (simp_all add: ngx_ref_def fmt_nat_digits hex_dump_ref_hex hex_dump_ref_len)

lemma take_min_inorder:
  "take_min l a r = (m, t) \<Longrightarrow> inorder l @ a # inorder r = m # inorder t"
  by (induction l a r arbitrary: m t rule: take_min.induct) (auto split: prod.splits)

lemma join_ref_inorder [simp]: "inorder (join_ref l r) = inorder l @ inorder r"
  by (auto simp: join_ref_def take_min_inorder split: tree.splits prod.splits)

lemma delete_ref_inorder:
  "distinct (inorder t) \<Longrightarrow> a \<in> set_tree t \<Longrightarrow> inorder (delete_ref t a) = remove1 a (inorder t)"
proof (induction t)
  case (Node l b r)
  then show ?case
    by (auto simp: remove1_append)
qed simp

interpretation ref_shm: ngx_shm_api shm_ref live_ref
proof
  show "distinct (inorder t) \<Longrightarrow> a \<in> set_tree t \<Longrightarrow>
      inorder (rbt_delete shm_ref t a) = remove1 a (inorder t)" for t a
    by (simp add: shm_ref_def delete_ref_inorder)
qed (auto simp: shm_ref_def live_ref_def split: if_splits)

end
