(* ===== verification/Shm_Zone.thy ===== *)
theory Shm_Zone
  imports Ngx_Api
begin

text \<open>
  The data structure that \<open>ngx_http_pgp_auth_nonce.c\<close> and \<open>ngx_http_pgp_auth_throttle.c\<close> both
  keep in shared memory: nodes that sit at the same time in a search tree (ordered by checksum,
  length and bytes of the key) and in a queue (newest first).  The nodes are in an explicit
  store, since the tree and the queue alias them and the throttle updates them in place.
  The common part of the two node structs is the record \<open>shm_node\<close>, which each component extends.
\<close>

section \<open>Nodes, zones and the operations on them\<close>

record shm_node =
  node_key :: "32 word"
  len :: "16 word"
  data :: bytes

text \<open>The per-zone context: tree and queue of \<open>ctx->sh\<close>, the store, and \<open>ctx->shpool\<close>.\<close>

record ('n, 'p) shm_zone =
  nodes :: "addr \<rightharpoonup> 'n"
  rbtree :: "addr tree"
  queue :: "addr list"
  pool :: 'p

text \<open>The insertion callback: on which side of \<open>nt\<close> does \<open>n\<close> go?\<close>

definition goes_left :: "'a shm_node_scheme \<Rightarrow> 'a shm_node_scheme \<Rightarrow> bool" where
  "goes_left n nt \<longleftrightarrow>
     (if node_key n < node_key nt then True
      else if node_key n > node_key nt then False
      else if len n \<noteq> len nt then len n < len nt
      else memcmp (data n) (data nt) (unat (len n)) < 0)"

fun rbtree_insert_cb :: "(addr \<rightharpoonup> 'a shm_node_scheme) \<Rightarrow> addr tree \<Rightarrow> addr \<Rightarrow> addr tree" where
  "rbtree_insert_cb h Leaf a = Node Leaf a Leaf"
| "rbtree_insert_cb h (Node l t r) a =
     (if goes_left (the (h a)) (the (h t)) then Node (rbtree_insert_cb h l a) t r
      else Node l t (rbtree_insert_cb h r a))"

text \<open>\<open>ngx_rbtree_insert\<close>: the first node becomes the root, any other goes through the callback.\<close>

definition rbtree_insert :: "'p ngx_shm \<Rightarrow> (addr \<rightharpoonup> 'a shm_node_scheme) \<Rightarrow> addr tree \<Rightarrow> addr \<Rightarrow> addr tree" where
  "rbtree_insert shm h t a =
     (if t = Leaf then Node Leaf a Leaf else rbt_fixup shm (rbtree_insert_cb h t a))"

fun rbtree_lookup :: "(addr \<rightharpoonup> 'a shm_node_scheme) \<Rightarrow> addr tree \<Rightarrow> 32 word \<Rightarrow> bytes \<Rightarrow> addr option" where
  "rbtree_lookup h Leaf hash s = None"
| "rbtree_lookup h (Node l a r) hash s =
     (let n = the (h a) in
      if hash < node_key n then rbtree_lookup h l hash s
      else if hash > node_key n then rbtree_lookup h r hash s
      else if length s \<noteq> unat (len n) then
        (if length s < unat (len n) then rbtree_lookup h l hash s else rbtree_lookup h r hash s)
      else let rc = memcmp s (data n) (unat (len n)) in
        if rc = 0 then Some a
        else if rc < 0 then rbtree_lookup h l hash s
        else rbtree_lookup h r hash s)"

text \<open>
  \<open>ngx_queue_remove\<close>, \<open>ngx_rbtree_delete\<close>, \<open>ngx_slab_free_locked\<close>: the three calls with which
  both components drop a node.
\<close>

definition shm_unlink :: "'p ngx_shm \<Rightarrow> addr \<Rightarrow> ('n, 'p) shm_zone \<Rightarrow> ('n, 'p) shm_zone" where
  "shm_unlink shm a z = z\<lparr>queue := remove1 a (queue z), rbtree := rbt_delete shm (rbtree z) a,
     nodes := (nodes z)(a := None), pool := slab_free shm (pool z) a\<rparr>"

text \<open>Filling a freshly allocated node, \<open>ngx_rbtree_insert\<close> and \<open>ngx_queue_insert_head\<close>.\<close>

definition shm_link :: "'p ngx_shm \<Rightarrow> addr \<Rightarrow> 'a shm_node_scheme
    \<Rightarrow> ('a shm_node_scheme, 'p) shm_zone \<Rightarrow> ('a shm_node_scheme, 'p) shm_zone" where
  "shm_link shm a n z =
     (let h = (nodes z)(a \<mapsto> n) in
      z\<lparr>nodes := h, rbtree := rbtree_insert shm h (rbtree z) a, queue := a # queue z\<rparr>)"

section \<open>The invariant\<close>

text \<open>The order of the tree: checksum first, then length, then the bytes.\<close>

definition node_order :: "'a shm_node_scheme \<Rightarrow> 32 word \<times> 16 word \<times> bytes" where
  "node_order n = (node_key n, len n, data n)"

text \<open>A node that was filled from a key \<open>s\<close>: its length field is exact and its checksum is that of \<open>s\<close>.\<close>

definition node_ok :: "(bytes \<Rightarrow> 32 word) \<Rightarrow> 'a shm_node_scheme \<Rightarrow> bool" where
  "node_ok crc n \<longleftrightarrow> unat (len n) = length (data n) \<and> node_key n = crc (data n)"

definition zone_ok :: "(bytes \<Rightarrow> 32 word) \<Rightarrow> ('p \<Rightarrow> addr set) \<Rightarrow> ('a shm_node_scheme, 'p) shm_zone \<Rightarrow> bool" where
  "zone_ok crc live z \<longleftrightarrow>
     distinct (queue z) \<and> set (queue z) = dom (nodes z) \<and> set_tree (rbtree z) = dom (nodes z) \<and>
     sorted_wrt (<) (map (\<lambda>a. node_order (the (nodes z a))) (inorder (rbtree z))) \<and>
     (\<forall>n \<in> ran (nodes z). node_ok crc n) \<and> dom (nodes z) \<subseteq> live (pool z)"

text \<open>What a zone stores: the node recorded for a key, if any.\<close>

definition zone_find :: "(bytes \<Rightarrow> 32 word) \<Rightarrow> ('a shm_node_scheme, 'p) shm_zone \<Rightarrow> bytes \<Rightarrow> 'a shm_node_scheme option" where
  "zone_find crc z s = (case rbtree_lookup (nodes z) (rbtree z) (crc s) s of
       None \<Rightarrow> None | Some a \<Rightarrow> nodes z a)"

section \<open>Lookup is exact\<close>

lemma node_ok_lenD: "node_ok crc n \<Longrightarrow> unat (len n) = length (data n)"
  by (simp add: node_ok_def)

lemma goes_left_iff:
  assumes "node_ok crc n" "node_ok crc nt"
  shows "goes_left n nt \<longleftrightarrow> node_order n < node_order nt"
proof -
  have "len n = len nt \<Longrightarrow> memcmp (data n) (data nt) (unat (len n)) < 0 \<longleftrightarrow> data n < data nt"
    using assms by (intro memcmp_less_iff) (auto simp: node_ok_def)
  then show ?thesis
    by (auto simp: goes_left_def node_order_def less_prod_def' less_eq_prod_def)
qed

text \<open>The search key of a lookup, as a node would carry it.\<close>

lemma lookup_cmp:
  assumes "node_ok crc n" "length s < 2 ^ 16"
  defines "k \<equiv> (crc s, of_nat (length s) :: 16 word, s)"
  shows "rbtree_lookup h (Node l a r) (crc s) s =
      (if h a = Some n then
         (if k = node_order n then Some a
          else if k < node_order n then rbtree_lookup h l (crc s) s
          else rbtree_lookup h r (crc s) s)
       else rbtree_lookup h (Node l a r) (crc s) s)"
proof -
  have len_s: "unat (of_nat (length s) :: 16 word) = length s"
    using assms(2) by (simp add: unat_of_nat)
  have len_lt: "of_nat (length s) < len n \<longleftrightarrow> length s < unat (len n)"
    by (simp add: word_less_nat_alt len_s)
  have len_eq: "of_nat (length s) = len n \<longleftrightarrow> length s = unat (len n)"
    by (metis len_s unsigned_word_eqI)
  have "length s = unat (len n) \<Longrightarrow> memcmp s (data n) (unat (len n)) = 0 \<longleftrightarrow> s = data n"
    and "length s = unat (len n) \<Longrightarrow> memcmp s (data n) (unat (len n)) < 0 \<longleftrightarrow> s < data n"
    using assms(1) by (auto simp: node_ok_def memcmp_zero_iff memcmp_less_iff)
  then show ?thesis
    by (auto simp: k_def node_order_def Let_def less_prod_def' len_lt len_eq)
qed

lemma lookup_sorted:
  assumes "sorted_wrt (<) (map (\<lambda>a. node_order (the (h a))) (inorder t))"
    and "set_tree t \<subseteq> dom h" and "\<And>n. n \<in> ran h \<Longrightarrow> node_ok crc n" and "length s < 2 ^ 16"
  defines "k \<equiv> (crc s, of_nat (length s) :: 16 word, s)"
  shows "rbtree_lookup h t (crc s) s = Some a \<longleftrightarrow> a \<in> set_tree t \<and> node_order (the (h a)) = k"
  using assms(1,2)
proof (induction t)
  case (Node l b r)
  let ?o = "\<lambda>a. node_order (the (h a))"
  obtain n where n: "h b = Some n" "node_ok crc n"
    using Node.prems(2) assms(3) by (auto simp: ran_def)
  have left: "\<And>x. x \<in> set_tree l \<Longrightarrow> ?o x < ?o b" and right: "\<And>x. x \<in> set_tree r \<Longrightarrow> ?o b < ?o x"
    using Node.prems(1) by (auto simp: sorted_wrt_append)
  have IHl: "rbtree_lookup h l (crc s) s = Some a \<longleftrightarrow> a \<in> set_tree l \<and> ?o a = k"
    and IHr: "rbtree_lookup h r (crc s) s = Some a \<longleftrightarrow> a \<in> set_tree r \<and> ?o a = k"
    using Node by (auto simp: sorted_wrt_append)
  have step: "rbtree_lookup h (Node l b r) (crc s) s =
      (if k = ?o b then Some b
       else if k < ?o b then rbtree_lookup h l (crc s) s else rbtree_lookup h r (crc s) s)"
    using lookup_cmp [OF n(2) assms(4), of h l b r] n(1) by (simp add: k_def)
  consider "k = ?o b" | "k < ?o b" | "k > ?o b" by (meson linorder_cases)
  then show ?case
  proof cases
    case 1
    with left right show ?thesis unfolding step by fastforce
  next
    case 2
    with right show ?thesis unfolding step by (auto simp: IHl dest: less_asym)
  next
    case 3
    with left show ?thesis unfolding step by (auto simp: IHr dest: less_asym)
  qed
qed simp

lemma node_order_key:
  assumes "node_ok crc n" "length s < 2 ^ 16"
  shows "node_order n = (crc s, of_nat (length s), s) \<longleftrightarrow> data n = s"
proof
  assume "data n = s"
  moreover from this assms have "len n = of_nat (length s)"
    by (metis node_ok_lenD of_nat_unat ucast_id)
  ultimately show "node_order n = (crc s, of_nat (length s), s)"
    using assms by (simp add: node_order_def node_ok_def)
qed (simp add: node_order_def)

lemma zone_lookup_iff:
  assumes "zone_ok crc live z" "length s < 2 ^ 16"
  shows "rbtree_lookup (nodes z) (rbtree z) (crc s) s = Some a \<longleftrightarrow>
     (\<exists>n. nodes z a = Some n \<and> data n = s)"
proof -
  have "rbtree_lookup (nodes z) (rbtree z) (crc s) s = Some a \<longleftrightarrow>
      a \<in> set_tree (rbtree z) \<and> node_order (the (nodes z a)) = (crc s, of_nat (length s), s)"
    using assms by (intro lookup_sorted) (auto simp: zone_ok_def)
  also have "\<dots> \<longleftrightarrow> (\<exists>n. nodes z a = Some n \<and> data n = s)"
    using assms node_order_key [OF _ assms(2)] by (fastforce simp: zone_ok_def ran_def)
  finally show ?thesis .
qed

lemma zone_lookup_None:
  assumes "zone_ok crc live z" "length s < 2 ^ 16"
  shows "rbtree_lookup (nodes z) (rbtree z) (crc s) s = None \<longleftrightarrow> (\<forall>n \<in> ran (nodes z). data n \<noteq> s)"
  using zone_lookup_iff [OF assms] by (auto simp: ran_def not_Some_eq [symmetric] simp del: not_Some_eq)

lemma zone_find_iff:
  assumes "zone_ok crc live z" "length s < 2 ^ 16"
  shows "zone_find crc z s = Some n \<longleftrightarrow> n \<in> ran (nodes z) \<and> data n = s"
proof
  assume "zone_find crc z s = Some n"
  then obtain a where "rbtree_lookup (nodes z) (rbtree z) (crc s) s = Some a" "nodes z a = Some n"
    by (auto simp: zone_find_def split: option.splits)
  then show "n \<in> ran (nodes z) \<and> data n = s"
    by (auto simp: zone_lookup_iff [OF assms] ran_def)
next
  assume n: "n \<in> ran (nodes z) \<and> data n = s"
  then obtain a where a: "nodes z a = Some n" by (auto simp: ran_def)
  with n have "rbtree_lookup (nodes z) (rbtree z) (crc s) s = Some a"
    using zone_lookup_iff [OF assms] by auto
  then show "zone_find crc z s = Some n" by (simp add: zone_find_def a)
qed

text \<open>No two nodes hold the same key.\<close>

lemma zone_key_unique:
  assumes "zone_ok crc live z" "nodes z a = Some n" "nodes z b = Some m" "data n = data m"
  shows "a = b"
proof -
  have "length (data n) = unat (len n)" using assms by (auto simp: zone_ok_def node_ok_def ran_def)
  then have "length (data n) < 2 ^ 16" using unsigned_less [of "len n", where ?'a = nat] by simp
  from zone_lookup_iff [OF assms(1) this] assms(2-4) show ?thesis by (metis option.inject)
qed

text \<open>To describe a zone's content it is enough to say which nodes it holds.\<close>

lemma zone_find_eqI:
  assumes "zone_ok crc live z" "length s < 2 ^ 16" "\<And>n. n \<in> ran (nodes z) \<and> data n = s \<longleftrightarrow> r = Some n"
  shows "zone_find crc z s = r"
  using zone_find_iff [OF assms(1,2)] assms(3) by (metis not_Some_eq)

section \<open>Preservation of the invariant\<close>

lemma insert_cb_set: "set_tree (rbtree_insert_cb h t a) = insert a (set_tree t)"
  by (induction h t a rule: rbtree_insert_cb.induct) auto

lemma insert_cb_sorted:
  assumes "sorted_wrt (<) (map (\<lambda>a. node_order (the (h a))) (inorder t))"
    and "set_tree t \<subseteq> dom h" and "a \<in> dom h"
    and "\<And>n. n \<in> ran h \<Longrightarrow> node_ok crc n"
    and "\<And>b. b \<in> set_tree t \<Longrightarrow> node_order (the (h b)) \<noteq> node_order (the (h a))"
  shows "sorted_wrt (<) (map (\<lambda>a. node_order (the (h a))) (inorder (rbtree_insert_cb h t a)))"
  using assms(1,2,5)
proof (induction t)
  case (Node l t r)
  let ?o = "\<lambda>a. node_order (the (h a))"
  have left: "goes_left (the (h a)) (the (h t)) \<longleftrightarrow> ?o a < ?o t"
    using Node.prems(2) assms(3,4) by (intro goes_left_iff [of crc] assms(4)) (auto simp: ran_def)
  have "?o t \<noteq> ?o a" using Node.prems(3) by simp
  then have right: "\<not> ?o a < ?o t \<Longrightarrow> ?o t < ?o a" by (meson linorder_cases)
  show ?case
    using Node left right by (auto simp: sorted_wrt_append insert_cb_set)
qed simp

context ngx_shm_api
begin

lemma rbtree_insert_inorder_set: "set_tree (rbtree_insert shm h t a) = insert a (set_tree t)"
  by (metis fixup_inorder insert_cb_set rbtree_insert_def set_inorder tree.set(1) tree.simps(15)
      rbtree_insert_cb.simps(1))

lemma rbtree_insert_sorted:
  assumes "sorted_wrt (<) (map (\<lambda>a. node_order (the (h a))) (inorder t))"
    and "set_tree t \<subseteq> dom h" and "a \<in> dom h"
    and "\<And>n. n \<in> ran h \<Longrightarrow> node_ok crc n"
    and "\<And>b. b \<in> set_tree t \<Longrightarrow> node_order (the (h b)) \<noteq> node_order (the (h a))"
  shows "sorted_wrt (<) (map (\<lambda>a. node_order (the (h a))) (inorder (rbtree_insert shm h t a)))"
  using insert_cb_sorted [OF assms] by (simp add: rbtree_insert_def fixup_inorder)

text \<open>Dropping a node removes exactly its entry.\<close>

lemma unlink_ok:
  assumes "zone_ok crc live z" "a \<in> dom (nodes z)"
  shows "zone_ok crc live (shm_unlink shm a z)"
proof -
  let ?z = "shm_unlink shm a z" and ?o = "\<lambda>h a. node_order (the (h a))"
  have sorted: "sorted_wrt (<) (map (?o (nodes z)) (inorder (rbtree z)))"
    using assms(1) by (simp add: zone_ok_def)
  then have dist: "distinct (inorder (rbtree z))"
    by (meson distinct_map strict_sorted_iff)
  have mem: "a \<in> set_tree (rbtree z)" using assms by (auto simp: zone_ok_def)
  have ino: "inorder (rbtree ?z) = remove1 a (inorder (rbtree z))"
    by (simp add: shm_unlink_def delete_inorder [OF dist mem])
  have set: "set_tree (rbtree ?z) = dom (nodes ?z)"
    using assms dist by (simp add: ino set_inorder [symmetric] del: set_inorder)
      (auto simp: shm_unlink_def zone_ok_def)
  have "sorted_wrt (<) (map (?o (nodes z)) (remove1 a (inorder (rbtree z))))"
    using sorted by (simp add: sorted_wrt_map sorted_wrt_remove1)
  moreover have "\<And>b. b \<in> set (remove1 a (inorder (rbtree z))) \<Longrightarrow> ?o (nodes z) b = ?o (nodes ?z) b"
    using dist by (auto simp: shm_unlink_def)
  ultimately have "sorted_wrt (<) (map (?o (nodes ?z)) (inorder (rbtree ?z)))"
    unfolding ino by (metis (no_types, lifting) sorted_wrt_map_cong)
  then show ?thesis
    using assms set by (auto simp: zone_ok_def shm_unlink_def free_live ran_def)
qed

lemma unlink_ran:
  assumes "zone_ok crc live z" "nodes z a = Some n"
  shows "ran (nodes (shm_unlink shm a z)) = {m \<in> ran (nodes z). data m \<noteq> data n}"
proof -
  have key: "b \<noteq> a \<longleftrightarrow> data m \<noteq> data n" if "nodes z b = Some m" for b m
    using zone_key_unique [OF assms(1) that assms(2)] assms(2) that by auto
  have "m \<in> ran ((nodes z)(a := None)) \<longleftrightarrow> (\<exists>b. b \<noteq> a \<and> nodes z b = Some m)" for m
    by (auto simp: ran_def)
  then show ?thesis using key by (auto simp: shm_unlink_def ran_def) blast
qed

text \<open>Linking a fresh node under a new key adds exactly its entry.\<close>

lemma link_ok:
  assumes ok: "zone_ok crc live z" and n: "node_ok crc n"
    and new: "\<And>m. m \<in> ran (nodes z) \<Longrightarrow> data m \<noteq> data n"
    and alloc: "slab_alloc shm (pool z) k = Some (a, p')"
  shows "zone_ok crc live (shm_link shm a n (z\<lparr>pool := p'\<rparr>))"
    and "ran (nodes (shm_link shm a n (z\<lparr>pool := p'\<rparr>))) = insert n (ran (nodes z))"
    and "a \<notin> dom (nodes z)"
proof -
  let ?h = "(nodes z)(a \<mapsto> n)" and ?o = "\<lambda>h a. node_order (the (h a))"
  have fresh: "a \<notin> dom (nodes z)" and live': "live p' = insert a (live (pool z))"
    using alloc_fresh [OF alloc] ok by (auto simp: zone_ok_def)
  then show "a \<notin> dom (nodes z)" by simp
  have ran: "ran ?h = insert n (ran (nodes z))"
    using fresh by (simp add: ran_map_upd domIff)
  have set: "set_tree (rbtree z) = dom (nodes z)" using ok by (simp add: zone_ok_def)
  have "sorted_wrt (<) (map (?o (nodes z)) (inorder (rbtree z)))"
    using ok by (simp add: zone_ok_def)
  moreover have "\<And>b. b \<in> set (inorder (rbtree z)) \<Longrightarrow> ?o (nodes z) b = ?o ?h b"
    using fresh set by auto
  ultimately have "sorted_wrt (<) (map (?o ?h) (inorder (rbtree z)))"
    by (metis (no_types, lifting) sorted_wrt_map_cong)
  then have sorted: "sorted_wrt (<) (map (?o ?h) (inorder (rbtree_insert shm ?h (rbtree z) a)))"
  proof (rule rbtree_insert_sorted)
    show "set_tree (rbtree z) \<subseteq> dom ?h" "a \<in> dom ?h" using set by auto
    show "m \<in> ran ?h \<Longrightarrow> node_ok crc m" for m
      using ok n by (auto simp: ran zone_ok_def)
    show "?o ?h b \<noteq> ?o ?h a" if "b \<in> set_tree (rbtree z)" for b
    proof -
      from that set obtain m where m: "nodes z b = Some m" by auto
      then have "b \<noteq> a" "data m \<noteq> data n" using fresh new [of m] by (auto simp: ran_def)
      then show ?thesis by (simp add: m node_order_def)
    qed
  qed
  then show "zone_ok crc live (shm_link shm a n (z\<lparr>pool := p'\<rparr>))"
    using ok n fresh
    by (auto simp: zone_ok_def shm_link_def Let_def rbtree_insert_inorder_set live' ran)
  show "ran (nodes (shm_link shm a n (z\<lparr>pool := p'\<rparr>))) = insert n (ran (nodes z))"
    by (simp add: shm_link_def Let_def ran)
qed

lemma find_unlink:
  assumes "zone_ok crc live z" "nodes z a = Some n" "length s < 2 ^ 16"
  shows "zone_find crc (shm_unlink shm a z) s = (if s = data n then None else zone_find crc z s)"
proof (rule zone_find_eqI [OF unlink_ok assms(3)])
  show "zone_ok crc live z" "a \<in> dom (nodes z)" using assms by auto
  show "m \<in> ran (nodes (shm_unlink shm a z)) \<and> data m = s \<longleftrightarrow>
      (if s = data n then None else zone_find crc z s) = Some m" for m
    using unlink_ran [OF assms(1,2)] zone_find_iff [OF assms(1,3)] by auto
qed

lemma find_link:
  assumes "zone_ok crc live z" "node_ok crc n" "\<And>m. m \<in> ran (nodes z) \<Longrightarrow> data m \<noteq> data n"
    and "slab_alloc shm (pool z) k = Some (a, p')" "length s < 2 ^ 16"
  shows "zone_find crc (shm_link shm a n (z\<lparr>pool := p'\<rparr>)) s = (if s = data n then Some n else zone_find crc z s)"
proof (rule zone_find_eqI [OF link_ok(1) [OF assms(1-4)] assms(5)])
  show "m \<in> ran (nodes (shm_link shm a n (z\<lparr>pool := p'\<rparr>))) \<and> data m = s \<longleftrightarrow>
      (if s = data n then Some n else zone_find crc z s) = Some m" for m
    using link_ok(2) [OF assms(1-4)] zone_find_iff [OF assms(1,5)] assms(3) by auto
qed

end

text \<open>Updating fields that the key does not depend on (the throttle does) keeps the invariant.\<close>

lemma update_node_ok:
  assumes ok: "zone_ok crc live z" and n: "nodes z a = Some n"
    and same: "node_key n' = node_key n" "len n' = len n" "data n' = data n"
  shows "zone_ok crc live (z\<lparr>nodes := (nodes z)(a \<mapsto> n')\<rparr>)"
proof -
  let ?h = "(nodes z)(a \<mapsto> n')"
  have "\<And>b. node_order (the (nodes z b)) = node_order (the (?h b))"
    using n same by (simp add: node_order_def)
  then have "sorted_wrt (<) (map (\<lambda>b. node_order (the (?h b))) (inorder (rbtree z)))"
    using ok by (simp add: zone_ok_def del: fun_upd_apply)
  moreover have "node_ok crc n'"
    using ok n same by (auto simp: zone_ok_def node_ok_def ran_def)
  moreover have "dom ?h = dom (nodes z)" using n by auto
  moreover have "ran ?h \<subseteq> insert n' (ran (nodes z))" by (auto simp: ran_def)
  ultimately show ?thesis using ok
    by (auto simp: zone_ok_def simp del: fun_upd_apply)
qed

lemma find_update_node:
  assumes "zone_ok crc live z" "nodes z a = Some n" "length s < 2 ^ 16"
    and "node_key n' = node_key n" "len n' = len n" "data n' = data n"
  shows "zone_find crc (z\<lparr>nodes := (nodes z)(a \<mapsto> n')\<rparr>) s = (if s = data n then Some n' else zone_find crc z s)"
proof (rule zone_find_eqI [OF update_node_ok [OF assms(1,2,4-6)] assms(3)])
  have key: "b \<noteq> a \<longleftrightarrow> data m \<noteq> data n" if "nodes z b = Some m" for b m
    using zone_key_unique [OF assms(1) that assms(2)] assms(2) that by auto
  have "m \<in> ran ((nodes z)(a \<mapsto> n')) \<longleftrightarrow> m = n' \<or> (\<exists>b. b \<noteq> a \<and> nodes z b = Some m)" for m
    by (auto simp: ran_def)
  then have ran: "m \<in> ran ((nodes z)(a \<mapsto> n')) \<longleftrightarrow> m = n' \<or> m \<in> ran (nodes z) \<and> data m \<noteq> data n" for m
    using key by (auto simp: ran_def)
  show "m \<in> ran (nodes (z\<lparr>nodes := (nodes z)(a \<mapsto> n')\<rparr>)) \<and> data m = s \<longleftrightarrow>
      (if s = data n then Some n' else zone_find crc z s) = Some m" for m
    using zone_find_iff [OF assms(1,3)] assms(6) by (auto simp: ran simp del: fun_upd_apply)
qed

lemma find_requeue [simp]: "zone_find crc (z\<lparr>queue := q\<rparr>) s = zone_find crc z s"
  by (simp add: zone_find_def split: option.splits)

lemma requeue_ok:
  assumes "zone_ok crc live z" "a \<in> dom (nodes z)"
  shows "zone_ok crc live (z\<lparr>queue := a # remove1 a (queue z)\<rparr>)"
  using assms by (auto simp: zone_ok_def)

text \<open>The empty zone that the init callback sets up.\<close>

definition empty_zone :: "'p \<Rightarrow> ('n, 'p) shm_zone" where
  "empty_zone p = \<lparr>nodes = Map.empty, rbtree = Leaf, queue = [], pool = p\<rparr>"

lemma empty_zone_ok: "zone_ok crc live (empty_zone p)"
  by (simp add: empty_zone_def zone_ok_def)

end
