(* ===== verification/Gpg.thy ===== *)
theory Gpg
  imports Ngx_Api
begin

text \<open>
  \<open>ngx_http_pgp_auth_gpg.c\<close>: the result record of a verification with its deferred diagnostic,
  the parser of gpg's status output, and \<open>ngx_http_pgp_gpg_verify\<close> itself.  What the operating
  system answers (clock, poll, read, write, fork, the child's exit status) is an argument of
  the model, the record \<open>gpg_env\<close>; what the function does to the system is returned as the
  list of its effects, in order.
\<close>

section \<open>The verification result and its deferred diagnostic\<close>

text \<open>
  \<open>fpr\<close> and \<open>plaintext\<close> are the regions \<open>fpr[0 .. fpr_len)\<close> and \<open>plaintext[0 .. plaintext_len)\<close>.
\<close>

record verify_result =
  valid :: bool
  fpr :: bytes
  plaintext :: bytes
  diag_level :: nat
  diag :: bytes
  chal_done :: bool
  chal_rc :: ngx_rc
  chal_reason :: "bytes option"

definition NGX_HTTP_PGP_PLAINTEXT_MAX :: nat where
  "NGX_HTTP_PGP_PLAINTEXT_MAX = 8192"

text \<open>
  The first message wins; it is cut to the 255 bytes that \<open>diag[256]\<close> holds.  (The pointer is
  never NULL in the model.)
\<close>

definition defer_diag :: "verify_result \<Rightarrow> nat \<Rightarrow> bytes \<Rightarrow> verify_result" where
  "defer_diag res level msg =
     (if diag_level res \<noteq> 0 then res
      else res\<lparr>diag := take 255 msg, diag_level := level\<rparr>)"

text \<open>Emit the recorded diagnostic, if any, and clear it; the log is the list of what was written.\<close>

definition gpg_log_diag :: "(nat \<times> bytes) list \<Rightarrow> verify_result \<Rightarrow> (nat \<times> bytes) list \<times> verify_result" where
  "gpg_log_diag log res =
     (if diag_level res \<noteq> 0 then (log @ [(diag_level res, diag res)], res\<lparr>diag_level := 0\<rparr>)
      else (log, res))"

section \<open>The fingerprint check and the status parser\<close>

definition is_hex :: "char \<Rightarrow> bool" where
  "is_hex c \<longleftrightarrow> (CHR ''0'' \<le> c \<and> c \<le> CHR ''9'') \<or> (CHR ''a'' \<le> c \<and> c \<le> CHR ''f'')
     \<or> (CHR ''A'' \<le> c \<and> c \<le> CHR ''F'')"

definition fpr_is_hex :: "bytes \<Rightarrow> bool" where
  "fpr_is_hex s \<longleftrightarrow> (if length s < 32 then False else list_all is_hex s)"

text \<open>
  The scan for the last field of a VALIDSIG line: \<open>q\<close> walks over the line, \<open>tok\<close> remembers
  where the latest token starts.
\<close>

function last_token :: "bytes \<Rightarrow> bytes \<Rightarrow> bytes" where
  "last_token tok q =
     (let q1 = dropWhile (\<lambda>c. c = SPACE) q in
      if q1 = [] then tok else last_token q1 (dropWhile (\<lambda>c. c \<noteq> SPACE) q1))"
  by pat_completeness auto
termination
proof (relation "measure (\<lambda>(tok, q). length q)", goal_cases)
  case (2 tok q q1)
  from 2(2) obtain c t where q1: "q1 = c # t" by (meson list.exhaust)
  have "c \<noteq> SPACE" using 2(1,2) q1 hd_dropWhile [of "\<lambda>c. c = SPACE" q] by (metis list.sel(1))
  then have "length (dropWhile (\<lambda>c. c \<noteq> SPACE) q1) < length q1"
    by (simp add: q1 less_Suc_eq_le length_dropWhile_le)
  also have "\<dots> \<le> length q" using 2 by (simp add: length_dropWhile_le)
  finally show ?case by simp
qed simp

declare last_token.simps [simp del]

text \<open>Copying a token into \<open>fpr[80]\<close>: up to a space or the end, at most 79 bytes.\<close>

definition copy_token :: "bytes \<Rightarrow> bytes" where
  "copy_token tok = take 79 (takeWhile (\<lambda>c. c \<noteq> SPACE) tok)"

text \<open>The machine prefix of a status line.\<close>

definition gnupg_prefix :: bytes where
  "gnupg_prefix = ''[GNUPG:] ''"

record gpg_status =
  st_good :: bool
  st_bad :: bool
  st_fpr :: bytes

definition gpg_status_line :: "gpg_status \<Rightarrow> bytes \<Rightarrow> gpg_status" where
  "gpg_status_line st line =
     (if \<not> starts_with gnupg_prefix line then st
      else let p = drop 9 line in
        if starts_with ''VALIDSIG '' p then
          (let p = drop 9 p; f = copy_token (last_token p p) in
           if fpr_is_hex f then st\<lparr>st_fpr := f, st_good := True\<rparr>
           else let f = copy_token p in
             if fpr_is_hex f then st\<lparr>st_fpr := f, st_good := True\<rparr>
             else st\<lparr>st_fpr := []\<rparr>)
        else if starts_with ''REVKEYSIG'' p \<or> starts_with ''EXPKEYSIG'' p \<or> starts_with ''EXPSIG'' p
             \<or> starts_with ''BADSIG'' p \<or> starts_with ''ERRSIG'' p
          then st\<lparr>st_bad := True\<rparr>
        else st)"

definition gpg_parse_status :: "bytes \<Rightarrow> gpg_status" where
  "gpg_parse_status out =
     foldl gpg_status_line \<lparr>st_good = False, st_bad = False, st_fpr = []\<rparr> (strtok_all LF (c_str out))"

text \<open>The copy of gpg's output that reaches the log on failure.\<close>

definition sanitise_char :: "char \<Rightarrow> char" where
  "sanitise_char c =
     (if c = LF \<or> c = CR then SPACE
      else if c < CHR 0x20 \<or> c = CHR 0x7F then CHR ''?'' else c)"

definition sanitise_out :: "bytes \<Rightarrow> bytes" where
  "sanitise_out out = map sanitise_char (c_str out)"

section \<open>The operating system, as the function sees it\<close>

text \<open>Results of \<open>read\<close>: bytes (none at end of file) or a failure (with EINTR or not).\<close>

datatype file_read = FRead bytes | FFail bool

text \<open>One round of the status loop: poll's answer, and the read that follows when it is positive.\<close>

datatype gpg_io = Poll_Timeout | Poll_Fail bool | Poll_Read file_read

text \<open>
  \<open>status_io\<close> pairs each round with the clock value (seconds, nanoseconds) read at its start.
  A list that runs out stands for a clock past the deadline.  \<open>write_rets\<close> are the results
  of \<open>write\<close> on the message file, \<open>readdir_names\<close> the entries of the directory at clean-up.
\<close>

record gpg_env =
  env_tmpdir :: "bytes option"
  mkdtemp :: "bytes \<Rightarrow> bytes option"
  open_msg_ok :: "bytes \<Rightarrow> bool"
  write_rets :: "int list"
  pipe_ok :: bool
  fork_ok :: bool
  devnull_ok :: bool
  close_range_ok :: bool
  sc_open_max :: int
  start_clock :: "int \<times> int"
  status_io :: "((int \<times> int) \<times> gpg_io) list"
  wait_exited :: "int option"
  open_plain_ok :: bool
  plain_io :: "file_read list"
  readdir_names :: "bytes list option"
  os_errno :: int

datatype gpg_eff =
    Mkdtemp bytes
  | Create_File bytes
  | Pipe
  | Sig_Block
  | Sig_Restore
  | Fork
  | Child "child_eff list"
  | Kill
  | Waitpid
  | Read_Plain bytes
  | Unlink bytes
  | Rmdir bytes
and child_eff =
    Dup_Status_To_Stdout
  | Dup_Devnull_To_Stderr
  | Close_From int
  | Close_Below int
  | Child_Sig_Restore
  | Execve bytes "bytes list" "bytes list"
  | Exit int

definition PATH_MAX :: nat where
  "PATH_MAX = 4096"

text \<open>\<open>ngx_snprintf (buf, size, ...)\<close> writes at most \<open>size\<close> bytes; \<open>%Z\<close> is a NUL byte.\<close>

definition snprintf :: "nat \<Rightarrow> bytes \<Rightarrow> bytes" where
  "snprintf sz s = take sz s"

definition now_ms :: "int \<times> int \<Rightarrow> int" where
  "now_ms ts = fst ts * 1000 + snd ts div 1000000"

definition gpg_cleanup :: "gpg_env \<Rightarrow> bytes \<Rightarrow> bytes option \<Rightarrow> gpg_eff list" where
  "gpg_cleanup env home msgpath =
     (case msgpath of None \<Rightarrow> [] | Some m \<Rightarrow> [Unlink m]) @
     (case readdir_names env of
        None \<Rightarrow> []
      | Some names \<Rightarrow> map (\<lambda>n. Unlink (c_str (snprintf PATH_MAX (home @ ''/'' @ n @ [NUL]))))
          (filter (\<lambda>n. n \<noteq> ''.'' \<and> n \<noteq> ''..'') names)) @
     [Rmdir home]"

text \<open>The directory template and the two files in it.\<close>

definition gpg_tmpdir :: "gpg_env \<Rightarrow> bytes" where
  "gpg_tmpdir env = (case env_tmpdir env of
       None \<Rightarrow> ''/tmp''
     | Some d \<Rightarrow>
         if take 1 d \<noteq> ''/'' \<or> length d > PATH_MAX - (length ''/ngx_pgp_XXXXXX'' + 1) then ''/tmp'' else d)"

definition gpg_home_template :: "gpg_env \<Rightarrow> bytes" where
  "gpg_home_template env = snprintf PATH_MAX (gpg_tmpdir env @ ''/ngx_pgp_XXXXXX'' @ [NUL])"

definition gpg_path_in :: "bytes \<Rightarrow> bytes \<Rightarrow> bytes" where
  "gpg_path_in home file = snprintf PATH_MAX (home @ ''/'' @ file @ [NUL])"

text \<open>Writing the message: \<open>off\<close> advances by what each \<open>write\<close> took; zero or less fails.\<close>

fun write_msg :: "nat \<Rightarrow> int list \<Rightarrow> bool" where
  "write_msg 0 rets = True"
| "write_msg (Suc n) [] = False"
| "write_msg (Suc n) (w # rets) = (if w \<le> 0 then False else write_msg (Suc n - nat w) rets)"

definition gpg_argv :: "ngx_lib \<Rightarrow> bytes \<Rightarrow> bytes \<Rightarrow> bytes \<Rightarrow> bytes \<Rightarrow> bytes \<Rightarrow> bytes list" where
  "gpg_argv ngx gpgz home keyringz plainpath msgpath =
     [gpgz, ''--homedir'', home, ''--no-default-keyring'', ''--keyring'', keyringz,
      ''--status-fd'', ''1'', ''--output'', plainpath,
      ''--max-output'', ngx_fmt_T ngx (int NGX_HTTP_PGP_PLAINTEXT_MAX),
      ''--batch'', ''--no-tty'', ''--yes'', ''--no-autostart'', ''--decrypt'', msgpath]"

definition gpg_child :: "ngx_lib \<Rightarrow> gpg_env \<Rightarrow> bytes \<Rightarrow> bytes \<Rightarrow> bytes \<Rightarrow> bytes \<Rightarrow> bytes \<Rightarrow> child_eff list" where
  "gpg_child ngx env gpgz home keyringz plainpath msgpath =
     [Dup_Status_To_Stdout] @
     (if devnull_ok env then [Dup_Devnull_To_Stderr] else []) @
     (if close_range_ok env then [Close_From 3]
      else [Close_Below
              (if sc_open_max env \<le> 0 \<or> sc_open_max env > 1000000 then 1024 else sc_open_max env)]) @
     [Child_Sig_Restore,
      Execve gpgz (gpg_argv ngx gpgz home keyringz plainpath msgpath) [],
      Exit 127]"

text \<open>The status loop: the bytes read, and how it ended.\<close>

datatype loop_end = Loop_Eof | Loop_Timeout | Loop_Poll_Error | Loop_Truncated

definition OUT_MAX :: nat where
  "OUT_MAX = 8192 - 1"

fun gpg_read_loop :: "int \<Rightarrow> ((int \<times> int) \<times> gpg_io) list \<Rightarrow> bytes \<Rightarrow> bytes \<times> loop_end" where
  "gpg_read_loop deadline [] out = (out, Loop_Timeout)"
| "gpg_read_loop deadline ((ts, io) # rest) out =
     (if deadline - now_ms ts \<le> 0 then (out, Loop_Timeout)
      else case io of
        Poll_Timeout \<Rightarrow> (out, Loop_Timeout)
      | Poll_Fail eintr \<Rightarrow>
          if eintr then gpg_read_loop deadline rest out else (out, Loop_Poll_Error)
      | Poll_Read (FRead s) \<Rightarrow>
          (let n = take (OUT_MAX - length out) s in
           if n \<noteq> [] then
             (let out = out @ n in
              if length out \<ge> OUT_MAX then (out, Loop_Truncated)
              else gpg_read_loop deadline rest out)
           else (out, Loop_Eof))
      | Poll_Read (FFail eintr) \<Rightarrow>
          if eintr then gpg_read_loop deadline rest out else (out, Loop_Eof))"

text \<open>Reading the verified plaintext; the flag says that it filled the buffer.\<close>

fun plain_read_loop :: "file_read list \<Rightarrow> bytes \<Rightarrow> bytes \<times> bool" where
  "plain_read_loop [] acc = (acc, False)"
| "plain_read_loop (FRead s # rest) acc =
     (let n = take (NGX_HTTP_PGP_PLAINTEXT_MAX - length acc) s in
      if n \<noteq> [] then
        (let acc = acc @ n in
         if length acc \<ge> NGX_HTTP_PGP_PLAINTEXT_MAX then (acc, True)
         else plain_read_loop rest acc)
      else (acc, False))"
| "plain_read_loop (FFail eintr # rest) acc =
     (if eintr then plain_read_loop rest acc else (acc, False))"

section \<open>ngx\_http\_pgp\_gpg\_verify\<close>

text \<open>The part that runs after the child has been reaped: parse, decide, prepare the diagnostic.\<close>

definition gpg_verdict :: "ngx_lib \<Rightarrow> gpg_env \<Rightarrow> bytes \<Rightarrow> bytes \<Rightarrow> bool \<Rightarrow> verify_result \<Rightarrow> verify_result" where
  "gpg_verdict ngx env keyring out truncated res =
     (let st = gpg_parse_status out;
          res = (if truncated
                 then defer_diag res NGX_LOG_ERR ''pgp_auth: gpg output truncated; rejecting'' else res);
          ok = st_good st \<and> \<not> st_bad st \<and> \<not> truncated;
          res = res\<lparr>valid := ok, fpr := (if ok then st_fpr st else [])\<rparr>
      in if ok then res
         else defer_diag res NGX_LOG_WARN
           (''pgp_auth: gpg verify produced no valid signature (keyring '' @ [CHR 0x22] @ keyring @
            [CHR 0x22] @ '', exit '' @
            ngx_fmt_T ngx (case wait_exited env of Some c \<Rightarrow> c | None \<Rightarrow> -1) @ ''): '' @
            (if sanitise_out out \<noteq> [] then sanitise_out out else ''(no output)'')))"

text \<open>From the fork on: the parent's side of the verification.\<close>

definition gpg_run :: "ngx_lib \<Rightarrow> gpg_env \<Rightarrow> bytes \<Rightarrow> bytes \<Rightarrow> int \<Rightarrow> bytes \<Rightarrow> verify_result
    \<Rightarrow> ngx_rc \<times> verify_result \<times> gpg_eff list" where
  "gpg_run ngx env gpgz keyring timeout_ms home res =
     (let msgpath = c_str (gpg_path_in home ''m''); plainpath = c_str (gpg_path_in home ''p'') in
      if \<not> fork_ok env then
        (NGX_ERROR,
         defer_diag res NGX_LOG_ERR (''pgp_auth: fork() failed (errno '' @ ngx_fmt_T ngx (os_errno env) @ '')''),
         [Sig_Block, Fork, Sig_Restore] @ gpg_cleanup env home (Some msgpath))
      else
        (let deadline = now_ms (start_clock env) + timeout_ms;
             (out, fin) = gpg_read_loop deadline (status_io env) [];
             res = (if fin = Loop_Timeout
                    then defer_diag res NGX_LOG_ERR ''pgp_auth: gpg verify timed out, killed'' else res);
             (plain, full) = (if open_plain_ok env then plain_read_loop (plain_io env) [] else ([], False));
             res = res\<lparr>plaintext := plain\<rparr>
         in (NGX_OK,
             gpg_verdict ngx env keyring out (fin = Loop_Truncated \<or> full) res,
             [Sig_Block, Fork, Child (gpg_child ngx env gpgz home (c_str keyring) plainpath msgpath)] @
             (if fin = Loop_Eof then [] else [Kill]) @ [Waitpid, Sig_Restore, Read_Plain plainpath] @
             gpg_cleanup env home (Some msgpath))))"

definition gpg_verify :: "ngx_lib \<Rightarrow> gpg_env \<Rightarrow> bytes \<Rightarrow> bytes \<Rightarrow> bytes \<Rightarrow> int \<Rightarrow> verify_result
    \<Rightarrow> ngx_rc \<times> verify_result \<times> gpg_eff list" where
  "gpg_verify ngx env gpg_path keyring msg timeout_ms res0 =
     (let res = res0\<lparr>valid := False, fpr := [], plaintext := [], diag_level := 0\<rparr> in
      if keyring = [] \<or> length keyring \<ge> PATH_MAX then
        (NGX_ERROR, defer_diag res NGX_LOG_ERR ''pgp_auth: invalid keyring path'', [])
      else if gpg_path = [] \<or> length gpg_path \<ge> PATH_MAX \<or> take 1 gpg_path \<noteq> ''/'' then
        (NGX_ERROR, defer_diag res NGX_LOG_ERR ''pgp_auth: invalid gpg binary path'', [])
      else case mkdtemp env (c_str (gpg_home_template env)) of
        None \<Rightarrow> (NGX_ERROR,
           defer_diag res NGX_LOG_ERR
             (''pgp_auth: mkdtemp() failed (errno '' @ ngx_fmt_T ngx (os_errno env) @ '')''), [])
      | Some home \<Rightarrow>
          let msgpath = c_str (gpg_path_in home ''m'') in
          if \<not> open_msg_ok env msgpath then
            (NGX_ERROR,
             defer_diag res NGX_LOG_ERR
               (''pgp_auth: open('' @ msgpath @ '') failed (errno '' @ ngx_fmt_T ngx (os_errno env) @ '')''),
             [Mkdtemp home, Create_File msgpath] @ gpg_cleanup env home None)
          else if \<not> write_msg (length msg) (write_rets env) then
            (NGX_ERROR, res, [Mkdtemp home, Create_File msgpath] @ gpg_cleanup env home (Some msgpath))
          else if \<not> pipe_ok env then
            (NGX_ERROR,
             defer_diag res NGX_LOG_ERR
               (''pgp_auth: pipe() failed (errno '' @ ngx_fmt_T ngx (os_errno env) @ '')''),
             [Mkdtemp home, Create_File msgpath, Pipe] @ gpg_cleanup env home (Some msgpath))
          else (case gpg_run ngx env (c_str gpg_path) keyring timeout_ms home res of
                  (rc, res, eff) \<Rightarrow> (rc, res, [Mkdtemp home, Create_File msgpath, Pipe] @ eff)))"

section \<open>The status parser\<close>

lemma copy_token_len: "length (copy_token tok) \<le> 79"
  by (simp add: copy_token_def)

text \<open>What every fingerprint the parser stores looks like: absent, or 32 to 79 hex digits.\<close>

definition fpr_shape :: "bytes \<Rightarrow> bool" where
  "fpr_shape f \<longleftrightarrow> f = [] \<or> (list_all is_hex f \<and> 32 \<le> length f \<and> length f \<le> 79)"

lemma fpr_is_hex_iff: "fpr_is_hex s \<longleftrightarrow> 32 \<le> length s \<and> list_all is_hex s"
  by (auto simp: fpr_is_hex_def)

lemma fpr_shape_copy: "fpr_is_hex (copy_token tok) \<Longrightarrow> fpr_shape (copy_token tok)"
  using copy_token_len by (auto simp: fpr_shape_def fpr_is_hex_iff)

lemma status_line_shape: "fpr_shape (st_fpr st) \<Longrightarrow> fpr_shape (st_fpr (gpg_status_line st line))"
  by (auto simp: gpg_status_line_def Let_def fpr_shape_copy) (auto simp: fpr_shape_def)

lemma foldl_status_shape: "fpr_shape (st_fpr st) \<Longrightarrow> fpr_shape (st_fpr (foldl gpg_status_line st ls))"
  by (induction ls arbitrary: st) (auto simp: status_line_shape)

lemma parse_status_shape: "fpr_shape (st_fpr (gpg_parse_status out))"
  unfolding gpg_parse_status_def by (rule foldl_status_shape) (simp add: fpr_shape_def)

text \<open>The two kinds of lines that matter.\<close>

definition bad_line :: "bytes \<Rightarrow> bool" where
  "bad_line line \<longleftrightarrow> (\<exists>kw \<in> {''REVKEYSIG'', ''EXPKEYSIG'', ''EXPSIG'', ''BADSIG'', ''ERRSIG''}.
     starts_with (gnupg_prefix @ kw) line)"

definition validsig_line :: "bytes \<Rightarrow> bool" where
  "validsig_line line \<longleftrightarrow> starts_with (gnupg_prefix @ ''VALIDSIG '') line"

lemma gnupg_prefix_len [simp]: "length gnupg_prefix = 9"
  by (simp add: gnupg_prefix_def)

lemma starts_with_split:
  "starts_with (l @ m) s \<longleftrightarrow> starts_with l s \<and> starts_with m (drop (length l) s)"
proof -
  have "take (length l + length m) s = take (length l) s @ take (length m) (drop (length l) s)"
    by (simp add: take_add)
  moreover have "length (take (length l) s) < length l \<Longrightarrow> drop (length l) s = []" by auto
  ultimately show ?thesis
    by (auto simp: starts_with_def append_eq_append_conv_if min_def)
qed

lemma status_line_bad: "st_bad (gpg_status_line st line) \<longleftrightarrow> st_bad st \<or> bad_line line"
proof -
  have "starts_with ''VALIDSIG '' p \<Longrightarrow>
     \<not> (starts_with ''REVKEYSIG'' p \<or> starts_with ''EXPKEYSIG'' p \<or> starts_with ''EXPSIG'' p
        \<or> starts_with ''BADSIG'' p \<or> starts_with ''ERRSIG'' p)" for p
    by (cases p) (auto simp: starts_with_def)
  then show ?thesis
    by (auto simp: gpg_status_line_def bad_line_def starts_with_split Let_def)
qed

lemma status_line_good: "st_good (gpg_status_line st line) \<Longrightarrow> st_good st \<or> validsig_line line"
  by (auto simp: gpg_status_line_def validsig_line_def starts_with_split Let_def split: if_splits)

lemma foldl_status_bad:
  "st_bad (foldl gpg_status_line st ls) \<longleftrightarrow> st_bad st \<or> (\<exists>l \<in> set ls. bad_line l)"
  by (induction ls arbitrary: st) (auto simp: status_line_bad)

lemma foldl_status_good:
  "st_good (foldl gpg_status_line st ls) \<Longrightarrow> st_good st \<or> (\<exists>l \<in> set ls. validsig_line l)"
  by (induction ls arbitrary: st) (auto dest: status_line_good)

text \<open>The scan finds the last space-separated field.\<close>

lemma last_token_fields:
  "takeWhile (\<lambda>c. c \<noteq> SPACE) (last_token tok q) =
     (if strtok_all SPACE q = [] then takeWhile (\<lambda>c. c \<noteq> SPACE) tok else last (strtok_all SPACE q))"
proof (induction tok q rule: last_token.induct)
  case (1 tok q)
  let ?q1 = "dropWhile (\<lambda>c. c = SPACE) q" and ?rest = "dropWhile (\<lambda>c. c \<noteq> SPACE) (dropWhile (\<lambda>c. c = SPACE) q)"
  show ?case
  proof (cases "?q1 = []")
    case True
    then have "strtok_all SPACE q = []" using strtok_all_skip [of SPACE q]
      by (simp add: strtok_all_def del: dropWhile_eq_Nil_conv)
    then show ?thesis by (subst last_token.simps) (use True in simp)
  next
    case False
    then have "hd ?q1 \<noteq> SPACE" by (metis (mono_tags) hd_dropWhile)
    then have toks: "strtok_all SPACE q = takeWhile (\<lambda>c. c \<noteq> SPACE) ?q1 # strtok_all SPACE ?rest"
      using strtok_all_token [OF False] strtok_all_skip [of SPACE q] by simp
    have "last_token tok q = last_token ?q1 ?rest"
      by (subst last_token.simps) (use False in \<open>simp add: Let_def del: dropWhile_eq_Nil_conv\<close>)
    then show ?thesis using "1.IH" [OF refl False] toks by auto
  qed
qed

text \<open>
  The fingerprint that a VALIDSIG line with the fields \<open>flds\<close> names: the last field, the primary key, if it is
  usable; else what stands before the first space, the key that signed; else none.
\<close>

definition validsig_fpr :: "bytes \<Rightarrow> bytes option" where
  "validsig_fpr flds =
     (let primary = take 79 (last (strtok_all SPACE flds)); signing = take 79 (takeWhile (\<lambda>c. c \<noteq> SPACE) flds) in
      if strtok_all SPACE flds \<noteq> [] \<and> fpr_is_hex primary then Some primary
      else if fpr_is_hex signing then Some signing else None)"

definition sig_fields :: "bytes \<Rightarrow> bytes" where
  "sig_fields line = drop (length (gnupg_prefix @ ''VALIDSIG '')) line"

definition sig_line :: "bytes \<Rightarrow> bytes" where
  "sig_line flds = gnupg_prefix @ ''VALIDSIG '' @ flds"

lemma sig_fields_line [simp]: "sig_fields (sig_line flds) = flds"
  by (simp add: sig_fields_def sig_line_def)

lemma validsig_sig_line [simp]: "validsig_line (sig_line flds)"
  using starts_with_append [of "gnupg_prefix @ ''VALIDSIG ''" flds] by (simp add: validsig_line_def sig_line_def)

lemma sig_line_text:
  assumes "LF \<notin> set flds"
  shows "strtok_all LF (sig_line flds @ LF # s) = sig_line flds # strtok_all LF s"
  by (rule strtok_all_line) (use assms in \<open>auto simp: sig_line_def gnupg_prefix_def\<close>)

lemma nul_sig_line [simp]: "NUL \<in> set (sig_line flds) \<longleftrightarrow> NUL \<in> set flds"
  by (simp add: sig_line_def gnupg_prefix_def)

lemma length_sig_line [simp]: "length (sig_line flds) = 18 + length flds"
  by (simp add: sig_line_def)

lemma copy_last_token:
  "copy_token (last_token flds flds) =
     (if strtok_all SPACE flds = [] then take 79 (takeWhile (\<lambda>c. c \<noteq> SPACE) flds) else take 79 (last (strtok_all SPACE flds)))"
  by (simp add: copy_token_def last_token_fields)

lemma status_line_validsig:
  assumes "validsig_line line"
  shows "gpg_status_line st line = (case validsig_fpr (sig_fields line) of
     Some f \<Rightarrow> st\<lparr>st_fpr := f, st_good := True\<rparr> | None \<Rightarrow> st\<lparr>st_fpr := []\<rparr>)"
proof -
  have "starts_with gnupg_prefix line" "starts_with ''VALIDSIG '' (drop 9 line)" "drop 9 (drop 9 line) = sig_fields line"
    using assms by (simp_all add: validsig_line_def starts_with_split sig_fields_def)
  moreover note copy_last_token [of "sig_fields line"]
  moreover have "copy_token (sig_fields line) = take 79 (takeWhile (\<lambda>c. c \<noteq> SPACE) (sig_fields line))"
    by (simp add: copy_token_def)
  ultimately show ?thesis
    by (simp only: gpg_status_line_def Let_def validsig_fpr_def not_True_eq_False if_False if_True) simp
qed

lemma status_line_other: "\<not> validsig_line line \<Longrightarrow> gpg_status_line st line = st\<lparr>st_bad := st_bad st \<or> bad_line line\<rparr>"
  by (auto simp: gpg_status_line_def validsig_line_def bad_line_def starts_with_split Let_def)

text \<open>What the parser makes of a list of lines.\<close>

definition lines_status :: "bytes list \<Rightarrow> gpg_status" where
  "lines_status ls =
     (let sigs = map (\<lambda>l. validsig_fpr (sig_fields l)) (filter validsig_line ls) in
      \<lparr>st_good = list_ex (\<lambda>f. f \<noteq> None) sigs, st_bad = list_ex bad_line ls,
       st_fpr = (if sigs = [] then [] else case last sigs of None \<Rightarrow> [] | Some f \<Rightarrow> f)\<rparr>)"

lemma validsig_not_bad: "validsig_line l \<Longrightarrow> \<not> bad_line l"
  using status_line_bad [of "\<lparr>st_good = False, st_bad = False, st_fpr = []\<rparr>" l]
  by (simp add: status_line_validsig split: option.splits)

lemma sig_line_not_bad [simp]: "\<not> bad_line (sig_line flds)"
  by (rule validsig_not_bad) simp

lemma foldl_status_lines:
  "foldl gpg_status_line \<lparr>st_good = False, st_bad = False, st_fpr = []\<rparr> ls = lines_status ls"
proof (induction ls rule: rev_induct)
  case (snoc l ls)
  then show ?case
    by (cases "validsig_line l")
      (auto simp: lines_status_def Let_def status_line_validsig status_line_other validsig_not_bad split: option.splits)
qed (simp add: lines_status_def)

lemma parse_status_lines: "gpg_parse_status out = lines_status (strtok_all LF (c_str out))"
  by (simp add: gpg_parse_status_def foldl_status_lines)

lemma lines_of_text:
  assumes "NUL \<notin> set s"
  shows "strtok_all LF (c_str s) = strtok_all LF s"
proof -
  have "c_str s = s" using assms by (auto simp: c_str_def takeWhile_eq_all_conv)
  then show ?thesis by simp
qed

section \<open>The verification as a whole\<close>

lemma defer_diag_simps [simp]:
  "valid (defer_diag r l m) = valid r" "fpr (defer_diag r l m) = fpr r"
  "plaintext (defer_diag r l m) = plaintext r" "chal_done (defer_diag r l m) = chal_done r"
  "chal_rc (defer_diag r l m) = chal_rc r" "chal_reason (defer_diag r l m) = chal_reason r"
  by (simp_all add: defer_diag_def)

lemma gpg_verdict_valid:
  "valid (gpg_verdict ngx env keyring out tr r) \<longleftrightarrow>
     st_good (gpg_parse_status out) \<and> \<not> st_bad (gpg_parse_status out) \<and> \<not> tr"
  by (simp add: gpg_verdict_def Let_def)

lemma gpg_verdict_fpr:
  "fpr (gpg_verdict ngx env keyring out tr r) =
     (if valid (gpg_verdict ngx env keyring out tr r) then st_fpr (gpg_parse_status out) else [])"
  by (simp add: gpg_verdict_def Let_def)

lemma gpg_verdict_plaintext [simp]: "plaintext (gpg_verdict ngx env keyring out tr r) = plaintext r"
  by (simp add: gpg_verdict_def Let_def)

lemma read_loop_bound:
  "length out < OUT_MAX \<Longrightarrow> gpg_read_loop d io out = (out', fin)
    \<Longrightarrow> length out' \<le> OUT_MAX \<and> (fin \<noteq> Loop_Truncated \<longrightarrow> length out' < OUT_MAX)"
proof (induction d io out rule: gpg_read_loop.induct)
  case (2 deadline ts io rest out)
  show ?case
  proof (cases io)
    case (Poll_Read r)
    then show ?thesis using 2
      by (cases r) (auto simp: Let_def split: if_splits)
  qed (use 2 in \<open>auto split: if_splits\<close>)
qed simp

lemma plain_loop_bound:
  "length acc < NGX_HTTP_PGP_PLAINTEXT_MAX \<Longrightarrow> plain_read_loop io acc = (s, full)
    \<Longrightarrow> length s \<le> NGX_HTTP_PGP_PLAINTEXT_MAX \<and> (\<not> full \<longrightarrow> length s < NGX_HTTP_PGP_PLAINTEXT_MAX)"
  by (induction io acc rule: plain_read_loop.induct) (auto simp: Let_def split: if_splits)

text \<open>The bytes and the end of the status loop of a verification, and the plaintext it captures.\<close>

definition status_bytes :: "gpg_env \<Rightarrow> int \<Rightarrow> bytes" where
  "status_bytes env timeout_ms = fst (gpg_read_loop (now_ms (start_clock env) + timeout_ms) (status_io env) [])"

definition status_end :: "gpg_env \<Rightarrow> int \<Rightarrow> loop_end" where
  "status_end env timeout_ms = snd (gpg_read_loop (now_ms (start_clock env) + timeout_ms) (status_io env) [])"

definition captured_plain :: "gpg_env \<Rightarrow> bytes \<times> bool" where
  "captured_plain env = (if open_plain_ok env then plain_read_loop (plain_io env) [] else ([], False))"

lemma status_bytes_bound: "length (status_bytes env t) \<le> OUT_MAX"
  using read_loop_bound [of "[]", OF _ surjective_pairing] by (simp add: status_bytes_def OUT_MAX_def)

lemma captured_plain_bound:
  "length (fst (captured_plain env)) \<le> NGX_HTTP_PGP_PLAINTEXT_MAX"
  "\<not> snd (captured_plain env) \<Longrightarrow> length (fst (captured_plain env)) < NGX_HTTP_PGP_PLAINTEXT_MAX"
  using plain_loop_bound [of "[]", OF _ surjective_pairing]
  by (auto simp: captured_plain_def NGX_HTTP_PGP_PLAINTEXT_MAX_def)

lemma gpg_run_valid:
  assumes "gpg_run ngx env gpgz keyring t home r = (rc, res, eff)" "\<not> valid r"
  shows "valid res \<longleftrightarrow> fork_ok env \<and> st_good (gpg_parse_status (status_bytes env t)) \<and>
      \<not> st_bad (gpg_parse_status (status_bytes env t)) \<and> status_end env t \<noteq> Loop_Truncated \<and>
      \<not> snd (captured_plain env)"
  using assms
  by (auto simp: gpg_run_def Let_def status_bytes_def status_end_def captured_plain_def gpg_verdict_valid
      split: prod.splits if_splits)

lemma gpg_run_ok:
  assumes "gpg_run ngx env gpgz keyring t home r = (rc, res, eff)" "fpr r = []"
  shows "rc = NGX_OK \<Longrightarrow> plaintext res = fst (captured_plain env)"
    and "rc \<noteq> NGX_OK \<Longrightarrow> rc = NGX_ERROR \<and> valid res = valid r \<and> plaintext res = plaintext r"
    and "fpr res = (if rc = NGX_OK \<and> valid res then st_fpr (gpg_parse_status (status_bytes env t)) else [])"
  using assms
  by (auto simp: gpg_run_def Let_def captured_plain_def status_bytes_def gpg_verdict_valid gpg_verdict_fpr
      split: prod.splits if_splits)

lemma gpg_verify_run:
  assumes "gpg_verify ngx env gp keyring msg t r0 = (rc, res, eff)"
  shows "(rc = NGX_ERROR \<and> \<not> valid res \<and> fpr res = [] \<and> plaintext res = []) \<or>
     (\<exists>home eff'. gpg_run ngx env (c_str gp) keyring t home
        (r0\<lparr>valid := False, fpr := [], plaintext := [], diag_level := 0\<rparr>) = (rc, res, eff'))"
  using assms
  by (auto simp: gpg_verify_def Let_def split: if_splits option.splits prod.splits)

section \<open>Properties\<close>

text \<open>
  A system on which every call succeeds: gpg prints \<open>st\<close> as its status and writes \<open>plain\<close>; the
  flag says whether it then ends (or hangs until the deadline).
\<close>

definition sample_env :: "bytes \<Rightarrow> bytes \<Rightarrow> bool \<Rightarrow> gpg_env" where
  "sample_env st plain ends = \<lparr>env_tmpdir = None, mkdtemp = (\<lambda>t. Some ''/tmp/ngx_pgp_a1B2c3''),
     open_msg_ok = (\<lambda>p. True), write_rets = [16384], pipe_ok = True, fork_ok = True,
     devnull_ok = True, close_range_ok = True, sc_open_max = 1024, start_clock = (10, 0),
     status_io = [((10, 5000000), Poll_Read (FRead st)),
                  ((10, 9000000), if ends then Poll_Read (FRead []) else Poll_Timeout)],
     wait_exited = Some 0, open_plain_ok = True, plain_io = [FRead plain],
     readdir_names = Some [''.'', ''..'', ''m'', ''p''], os_errno = 0\<rparr>"

definition sample_fpr :: bytes where
  "sample_fpr = ''0123456789ABCDEF0123456789ABCDEF01234567''"

definition sample_flds :: bytes where
  "sample_flds = sample_fpr @ '' 2024-01-01 1704067200 0 4 0 22 10 01 '' @ sample_fpr"

definition sample_status :: bytes where
  "sample_status = sig_line sample_flds @ [LF]"

definition sample_plain :: bytes where
  "sample_plain = ''v1|130|n1|mac''"

definition sample_verify :: "bool \<Rightarrow> ngx_rc \<times> verify_result \<times> gpg_eff list" where
  "sample_verify ends = gpg_verify ngx_ref (sample_env sample_status sample_plain ends) ''/usr/bin/gpg''
     ''/etc/nginx/pubkeys.gpg'' ''signed'' 2000
     \<lparr>valid = False, fpr = [], plaintext = [], diag_level = 0, diag = [], chal_done = False,
      chal_rc = NGX_ERROR, chal_reason = None\<rparr>"

lemma sample_fields:
  "strtok_all SPACE sample_flds =
     [sample_fpr, ''2024-01-01'', ''1704067200'', ''0'', ''4'', ''0'', ''22'', ''10'', ''01'', sample_fpr]"
  by (simp add: strtok_all_def sample_flds_def sample_fpr_def)

lemma sample_fpr_hex: "fpr_is_hex sample_fpr" "length sample_fpr = 40" "LF \<notin> set sample_fpr" "NUL \<notin> set sample_fpr"
  by (simp_all add: fpr_is_hex_def sample_fpr_def is_hex_def less_eq_char_def)

lemma sample_flds_plain: "NUL \<notin> set sample_flds" "LF \<notin> set sample_flds"
  using sample_fpr_hex by (simp_all add: sample_flds_def)

lemma sample_no_nul: "NUL \<notin> set sample_status"
  using sample_flds_plain by (simp add: sample_status_def)

lemma sample_lines: "strtok_all LF (sample_status @ s) = sig_line sample_flds # strtok_all LF s"
  using sig_line_text [OF sample_flds_plain(2), of s] by (simp add: sample_status_def)

lemma sample_status_lines: "strtok_all LF (c_str sample_status) = [sig_line sample_flds]"
  using sample_lines [of "[]"] lines_of_text [OF sample_no_nul] by (simp add: strtok_all_def)

lemma sample_validsig_fpr: "validsig_fpr sample_flds = Some sample_fpr"
  by (simp add: validsig_fpr_def sample_fields sample_fpr_hex)

lemma sample_parse:
  "gpg_parse_status sample_status = \<lparr>st_good = True, st_bad = False, st_fpr = sample_fpr\<rparr>"
  by (simp add: parse_status_lines sample_status_lines lines_status_def sample_validsig_fpr)

lemma sample_len: "length sample_status < OUT_MAX" "sample_status \<noteq> []" "length sample_plain = 13" "sample_plain \<noteq> []"
  by (simp_all add: sample_status_def sample_flds_def sample_fpr_hex OUT_MAX_def sample_plain_def)

lemma sample_loop:
  "gpg_read_loop 12000 (status_io (sample_env sample_status plain ends)) [] =
     (sample_status, if ends then Loop_Eof else Loop_Timeout)"
  using sample_len by (simp add: sample_env_def now_ms_def Let_def)

lemma sample_loop_2000:
  "gpg_read_loop (now_ms (start_clock (sample_env sample_status plain ends)) + 2000)
     (status_io (sample_env sample_status plain ends)) [] =
     (sample_status, if ends then Loop_Eof else Loop_Timeout)"
proof -
  have "now_ms (start_clock (sample_env sample_status plain ends)) + 2000 = 12000"
    by (simp add: sample_env_def now_ms_def)
  then show ?thesis using sample_loop by simp
qed

lemma surjective_pairing3: "p = (fst p, fst (snd p), snd (snd p))"
  by simp

lemma sample_verify_eq:
  "sample_verify ends = (let env = sample_env sample_status sample_plain ends; home = ''/tmp/ngx_pgp_a1B2c3'' in
     (NGX_OK, gpg_verdict ngx_ref env ''/etc/nginx/pubkeys.gpg'' sample_status False
        (((if ends then id else (\<lambda>r. defer_diag r NGX_LOG_ERR ''pgp_auth: gpg verify timed out, killed''))
          \<lparr>valid = False, fpr = [], plaintext = [], diag_level = 0, diag = [], chal_done = False,
           chal_rc = NGX_ERROR, chal_reason = None\<rparr>) \<lparr>plaintext := sample_plain\<rparr>),
      [Mkdtemp home, Create_File (home @ ''/m''), Pipe, Sig_Block, Fork,
       Child (gpg_child ngx_ref env ''/usr/bin/gpg'' home ''/etc/nginx/pubkeys.gpg'' (home @ ''/p'') (home @ ''/m''))] @
      (if ends then [] else [Kill]) @ [Waitpid, Sig_Restore, Read_Plain (home @ ''/p'')] @
      gpg_cleanup env home (Some (home @ ''/m''))))"
proof -
  let ?env = "sample_env sample_status sample_plain ends"
  have calls: "mkdtemp ?env t = Some ''/tmp/ngx_pgp_a1B2c3''" "open_msg_ok ?env p" "write_rets ?env = [16384]"
    "pipe_ok ?env" "fork_ok ?env" "start_clock ?env = (10, 0)" "open_plain_ok ?env"
    "plain_io ?env = [FRead sample_plain]" for t p
    by (simp_all add: sample_env_def)
  have paths: "c_str (gpg_path_in ''/tmp/ngx_pgp_a1B2c3'' ''m'') = ''/tmp/ngx_pgp_a1B2c3/m''"
    "c_str (gpg_path_in ''/tmp/ngx_pgp_a1B2c3'' ''p'') = ''/tmp/ngx_pgp_a1B2c3/p''"
    "c_str ''/usr/bin/gpg'' = ''/usr/bin/gpg''" "c_str ''/etc/nginx/pubkeys.gpg'' = ''/etc/nginx/pubkeys.gpg''"
    by (simp_all add: gpg_path_in_def c_str_def snprintf_def PATH_MAX_def)
  have plain: "plain_read_loop [FRead sample_plain] [] = (sample_plain, False)"
    using sample_len by (simp add: NGX_HTTP_PGP_PLAINTEXT_MAX_def)
  have wr: "write_msg (length ''signed'') [16384]" by (simp add: eval_nat_numeral)
  have dl: "now_ms (10, 0) + 2000 = 12000" by (simp add: now_ms_def)
  show ?thesis
    unfolding sample_verify_def gpg_verify_def gpg_run_def Let_def calls paths plain dl sample_loop
    by (simp add: wr paths calls PATH_MAX_def gpg_run_def Let_def dl sample_loop plain)
qed

lemma sample_verify_result:
  "fst (sample_verify ends) = NGX_OK" "valid (fst (snd (sample_verify ends)))"
  "fpr (fst (snd (sample_verify ends))) = sample_fpr"
  "plaintext (fst (snd (sample_verify ends))) = sample_plain"
  "Child (gpg_child ngx_ref (sample_env sample_status sample_plain ends) ''/usr/bin/gpg'' ''/tmp/ngx_pgp_a1B2c3''
     ''/etc/nginx/pubkeys.gpg'' ''/tmp/ngx_pgp_a1B2c3/p'' ''/tmp/ngx_pgp_a1B2c3/m'') \<in> set (snd (snd (sample_verify ends)))"
  "Kill \<in> set (snd (snd (sample_verify ends))) \<longleftrightarrow> \<not> ends"
  by (simp_all add: sample_verify_eq gpg_verdict_def sample_parse Let_def gpg_cleanup_def sample_env_def)

text \<open>
  C10: a signature is reported good only if the status bytes read before the loop ended (by end of file, the deadline or an
  error of poll) did not fill the buffer, one of their lines is a VALIDSIG status line, none is a
  revoked, expired, bad or error line, and the plaintext fitted its buffer; the recorded
  fingerprint is then absent or 32 to 79 hex digits.  A verification that is not reported good records no
  fingerprint.
\<close>

theorem gpg_verify_sound:
  assumes "gpg_verify ngx env gpg_path keyring msg timeout_ms res0 = (rc, res, eff)"
  shows "if valid res
     then rc = NGX_OK \<and> status_end env timeout_ms \<noteq> Loop_Truncated \<and>
       (\<exists>l \<in> set (strtok_all LF (c_str (status_bytes env timeout_ms))). validsig_line l) \<and>
       (\<forall>l \<in> set (strtok_all LF (c_str (status_bytes env timeout_ms))). \<not> bad_line l) \<and>
       plaintext res = fst (captured_plain env) \<and>
       length (plaintext res) < NGX_HTTP_PGP_PLAINTEXT_MAX \<and> fpr_shape (fpr res)
     else fpr res = []"
proof -
  let ?st = "gpg_parse_status (status_bytes env timeout_ms)"
  let ?ls = "strtok_all LF (c_str (status_bytes env timeout_ms))"
  let ?r = "res0\<lparr>valid := False, fpr := [], plaintext := [], diag_level := 0\<rparr>"
  from gpg_verify_run [OF assms] consider "\<not> valid res" "fpr res = []"
    | home eff' where "gpg_run ngx env (c_str gpg_path) keyring timeout_ms home ?r = (rc, res, eff')"
    by blast
  then show ?thesis
  proof cases
    case (2 home eff')
    note run = gpg_run_ok [OF 2, simplified] and ok = gpg_run_valid [OF 2, simplified]
    have good: "st_good ?st \<Longrightarrow> \<exists>l \<in> set ?ls. validsig_line l"
      using foldl_status_good unfolding gpg_parse_status_def by fastforce
    have bad: "st_bad ?st \<longleftrightarrow> (\<exists>l \<in> set ?ls. bad_line l)"
      unfolding gpg_parse_status_def foldl_status_bad by simp
    show ?thesis
      using run ok good bad captured_plain_bound [of env] parse_status_shape by auto
  qed simp
qed

theorem gpg_verify_sound_witness:
  "valid (fst (snd (sample_verify True))) \<and> fpr_shape (fpr (fst (snd (sample_verify True)))) \<and>
   fpr (fst (snd (sample_verify True))) = sample_fpr"
  using gpg_verify_sound [OF surjective_pairing3 [of "sample_verify True", unfolded sample_verify_def]]
    sample_verify_result [of True]
  by (simp add: sample_verify_def)

text \<open>
  C27: whatever happens during a verification, the throwaway directory is removed as the last
  action whenever it was created, the signal mask is restored as often as it was changed, a
  child that was started is waited for, and it is killed exactly when the status loop
  did not end by itself.
\<close>

theorem gpg_verify_cleans_up:
  assumes "gpg_verify ngx env gpg_path keyring msg timeout_ms res0 = (rc, res, eff)"
  shows "(eff = [] \<or> (\<exists>home. hd eff = Mkdtemp home \<and> last eff = Rmdir home)) \<and>
     count_list eff Sig_Block = count_list eff Sig_Restore \<and>
     (\<forall>c. Child c \<in> set eff \<longrightarrow>
        Waitpid \<in> set eff \<and> (Kill \<in> set eff \<longleftrightarrow> status_end env timeout_ms \<noteq> Loop_Eof))"
proof -
  have cl: "last (gpg_cleanup env home m) = Rmdir home" "gpg_cleanup env home m \<noteq> []"
    "count_list (gpg_cleanup env home m) Sig_Block = 0" "count_list (gpg_cleanup env home m) Sig_Restore = 0"
    "Child c \<notin> set (gpg_cleanup env home m)" "Kill \<notin> set (gpg_cleanup env home m)" for home m c
    by (auto simp: gpg_cleanup_def count_list_0_iff split: option.splits)
  show ?thesis
    using assms
    by (auto simp: gpg_verify_def gpg_run_def Let_def cl status_end_def
        split: if_splits option.splits prod.splits)
qed

theorem gpg_verify_cleans_up_witness:
  "Kill \<in> set (snd (snd (sample_verify False))) \<and> Waitpid \<in> set (snd (snd (sample_verify False))) \<and>
   (\<exists>home. last (snd (snd (sample_verify False))) = Rmdir home)"
  using gpg_verify_cleans_up [OF surjective_pairing3 [of "sample_verify False", unfolded sample_verify_def]]
    sample_verify_result [of False]
  unfolding sample_verify_def by fastforce

text \<open>
  C28: the only program the verification executes is the configured absolute gpg path, with an
  empty environment and exactly the following arguments: the fresh directory that mkdtemp made as home, the
  configured keyring as the only one, status output on descriptor 1, the plaintext file in that directory as
  output, capped at 8192 bytes, no agent, no terminal, and the message file in that directory to decrypt.
\<close>

theorem gpg_verify_execs_only_gpg:
  assumes "gpg_verify ngx env gpg_path keyring msg timeout_ms res0 = (rc, res, eff)"
    and "Child c \<in> set eff" and "Execve path argv envp \<in> set c"
  shows "path = c_str gpg_path \<and> envp = [] \<and> take 1 gpg_path = ''/'' \<and>
     (\<exists>home. mkdtemp env (c_str (gpg_home_template env)) = Some home \<and>
       argv = [c_str gpg_path, ''--homedir'', home, ''--no-default-keyring'', ''--keyring'', c_str keyring,
         ''--status-fd'', ''1'', ''--output'', c_str (take 4096 (home @ ''/p'' @ [NUL])),
         ''--max-output'', ngx_fmt_T ngx 8192, ''--batch'', ''--no-tty'', ''--yes'', ''--no-autostart'',
         ''--decrypt'', c_str (take 4096 (home @ ''/m'' @ [NUL]))])"
proof -
  have cl: "Child c \<notin> set (gpg_cleanup env home m)" for home m
    by (auto simp: gpg_cleanup_def split: option.splits)
  obtain home where abs: "take 1 gpg_path = ''/''" and home: "mkdtemp env (c_str (gpg_home_template env)) = Some home"
      and c: "c = gpg_child ngx env (c_str gpg_path) home (c_str keyring)
        (c_str (gpg_path_in home ''p'')) (c_str (gpg_path_in home ''m''))"
    using assms(1,2)
    by (auto simp: gpg_verify_def gpg_run_def Let_def cl split: if_splits option.splits prod.splits)
  have "argv = gpg_argv ngx (c_str gpg_path) home (c_str keyring) (c_str (gpg_path_in home ''p'')) (c_str (gpg_path_in home ''m''))"
    "path = c_str gpg_path" "envp = []"
    using assms(3) unfolding c by (auto simp: gpg_child_def split: if_splits)
  then show ?thesis
    using abs home by (simp add: gpg_argv_def gpg_path_in_def snprintf_def PATH_MAX_def NGX_HTTP_PGP_PLAINTEXT_MAX_def)
qed

theorem gpg_verify_execs_only_gpg_witness:
  "\<exists>c. Child c \<in> set (snd (snd (sample_verify True))) \<and> Execve ''/usr/bin/gpg''
     [''/usr/bin/gpg'', ''--homedir'', ''/tmp/ngx_pgp_a1B2c3'', ''--no-default-keyring'', ''--keyring'', ''/etc/nginx/pubkeys.gpg'',
      ''--status-fd'', ''1'', ''--output'', ''/tmp/ngx_pgp_a1B2c3/p'', ''--max-output'', ngx_fmt_T ngx_ref 8192, ''--batch'',
      ''--no-tty'', ''--yes'', ''--no-autostart'', ''--decrypt'', ''/tmp/ngx_pgp_a1B2c3/m''] [] \<in> set c"
proof -
  let ?env = "sample_env sample_status sample_plain True"
  let ?c = "gpg_child ngx_ref ?env ''/usr/bin/gpg''
    ''/tmp/ngx_pgp_a1B2c3'' ''/etc/nginx/pubkeys.gpg'' ''/tmp/ngx_pgp_a1B2c3/p'' ''/tmp/ngx_pgp_a1B2c3/m''"
  obtain argv where e: "Execve ''/usr/bin/gpg'' argv [] \<in> set ?c"
    by (simp add: gpg_child_def)
  have "mkdtemp ?env t = Some ''/tmp/ngx_pgp_a1B2c3''" for t by (simp add: sample_env_def)
  moreover have "c_str ''/usr/bin/gpg'' = ''/usr/bin/gpg''" "c_str ''/etc/nginx/pubkeys.gpg'' = ''/etc/nginx/pubkeys.gpg''"
    "c_str (take 4096 (''/tmp/ngx_pgp_a1B2c3'' @ ''/p'' @ [NUL])) = ''/tmp/ngx_pgp_a1B2c3/p''"
    "c_str (take 4096 (''/tmp/ngx_pgp_a1B2c3'' @ ''/m'' @ [NUL])) = ''/tmp/ngx_pgp_a1B2c3/m''"
    by (simp_all add: c_str_def)
  ultimately show ?thesis
    using gpg_verify_execs_only_gpg [OF surjective_pairing3 [of "sample_verify True", unfolded sample_verify_def]
        sample_verify_result(5) [of True, unfolded sample_verify_def] e] e sample_verify_result(5) [of True]
    unfolding sample_verify_def by auto
qed

text \<open>
  C29: what the parser concludes from any output of gpg.  The verdict is good exactly if some VALIDSIG line
  names a fingerprint, bad exactly if some line reports a revoked, expired, bad or unverifiable signature; the signer
  is taken from the last VALIDSIG line: its last field, the primary key fingerprint, if that is usable (32 hex digits or more,
  cut to 79), else what stands before its first space, the key that signed, if that is usable, and otherwise no one.
\<close>

theorem parse_status_primary_fpr:
  fixes out :: bytes
  defines "ls \<equiv> strtok_all LF (c_str out)"
  defines "sigs \<equiv> map sig_fields (filter validsig_line ls)"
  defines "primary \<equiv> take 79 (last (strtok_all SPACE (last sigs)))"
    and "signing \<equiv> take 79 (takeWhile (\<lambda>c. c \<noteq> SPACE) (last sigs))"
  shows "st_good (gpg_parse_status out) = list_ex (\<lambda>flds. validsig_fpr flds \<noteq> None) sigs \<and>
    st_bad (gpg_parse_status out) = list_ex bad_line ls \<and>
    st_fpr (gpg_parse_status out) =
      (if sigs = [] then []
       else if strtok_all SPACE (last sigs) \<noteq> [] \<and> fpr_is_hex primary then primary
       else if fpr_is_hex signing then signing else [])"
proof -
  have "list_ex (\<lambda>f. f \<noteq> None) (map (\<lambda>l. validsig_fpr (sig_fields l)) (filter validsig_line ls)) = list_ex (\<lambda>flds. validsig_fpr flds \<noteq> None) sigs"
    by (auto simp: sigs_def list_ex_iff)
  moreover have "sigs \<noteq> [] \<Longrightarrow> last (map (\<lambda>l. validsig_fpr (sig_fields l)) (filter validsig_line ls)) = validsig_fpr (last sigs)"
    by (simp add: sigs_def last_map)
  moreover have "sigs = [] \<longleftrightarrow> filter validsig_line ls = []" by (simp add: sigs_def)
  ultimately show ?thesis
    unfolding parse_status_lines lines_status_def Let_def ls_def [symmetric]
    by (auto simp: validsig_fpr_def Let_def primary_def signing_def)
qed

text \<open>The output for a signature made with a subkey, whose own fingerprint is the first field.\<close>

definition subkey_fpr :: bytes where
  "subkey_fpr = ''89ABCDEF0123456789ABCDEF0123456789ABCDEF''"

definition subkey_fields :: bytes where
  "subkey_fields = subkey_fpr @ '' 2024-01-01 1704067200 0 4 0 22 10 01 '' @ sample_fpr"

definition subkey_status :: bytes where
  "subkey_status = (gnupg_prefix @ ''NEWSIG'') @ LF # (gnupg_prefix @ ''GOODSIG CDEF alice'') @ LF #
     sig_line subkey_fields @ LF # (gnupg_prefix @ ''TRUST_FULLY'') @ LF # []"

lemma subkey_lines:
  "strtok_all LF (c_str subkey_status) =
     [gnupg_prefix @ ''NEWSIG'', gnupg_prefix @ ''GOODSIG CDEF alice'', sig_line subkey_fields, gnupg_prefix @ ''TRUST_FULLY'']"
proof -
  have sub: "NUL \<notin> set subkey_fields" "LF \<notin> set subkey_fields"
    using sample_fpr_hex by (simp_all add: subkey_fields_def subkey_fpr_def)
  then have plain: "strtok_all LF (c_str subkey_status) = strtok_all LF subkey_status"
    by (intro lines_of_text) (simp add: subkey_status_def gnupg_prefix_def)
  have "strtok_all LF [] = []" by (simp add: strtok_all_def)
  moreover note sig_line_text [OF sub(2)]
  moreover have "strtok_all LF ((gnupg_prefix @ ''NEWSIG'') @ LF # s) = (gnupg_prefix @ ''NEWSIG'') # strtok_all LF s"
    "strtok_all LF ((gnupg_prefix @ ''GOODSIG CDEF alice'') @ LF # s) = (gnupg_prefix @ ''GOODSIG CDEF alice'') # strtok_all LF s"
    "strtok_all LF ((gnupg_prefix @ ''TRUST_FULLY'') @ LF # s) = (gnupg_prefix @ ''TRUST_FULLY'') # strtok_all LF s" for s
    by (rule strtok_all_line; simp add: gnupg_prefix_def)+
  ultimately show ?thesis unfolding plain unfolding subkey_status_def by (simp only: simp_thms)
qed

theorem parse_status_primary_fpr_witness:
  "st_good (gpg_parse_status subkey_status) \<and> st_fpr (gpg_parse_status subkey_status) = sample_fpr \<and> subkey_fpr \<noteq> sample_fpr"
proof -
  have "\<not> validsig_line (gnupg_prefix @ ''NEWSIG'')" "\<not> validsig_line (gnupg_prefix @ ''GOODSIG CDEF alice'')"
    "\<not> validsig_line (gnupg_prefix @ ''TRUST_FULLY'')"
    by (simp_all add: validsig_line_def starts_with_def gnupg_prefix_def)
  then have sigs: "map sig_fields (filter validsig_line (strtok_all LF (c_str subkey_status))) = [subkey_fields]"
    unfolding subkey_lines by (simp del: append_Cons append_assoc)
  have "strtok_all SPACE subkey_fields = [subkey_fpr, ''2024-01-01'', ''1704067200'', ''0'', ''4'', ''0'', ''22'', ''10'', ''01'', sample_fpr]"
    by (simp add: strtok_all_def subkey_fields_def subkey_fpr_def sample_fpr_def)
  moreover have "subkey_fpr \<noteq> sample_fpr" by (simp add: subkey_fpr_def sample_fpr_def)
  ultimately show ?thesis
    using parse_status_primary_fpr [of subkey_status] unfolding sigs by (simp add: validsig_fpr_def sample_fpr_hex)
qed

text \<open>
  C31: the status loop ends by the deadline.  Whatever gpg does, and however often the calls are interrupted, the
  result is decided by what happened before the deadline: answers that come at or after it
  change nothing, and no more than the buffer holds is ever kept.
\<close>

theorem gpg_loop_ends_by_deadline:
  "gpg_read_loop deadline ios out = gpg_read_loop deadline (takeWhile (\<lambda>(ts, io). now_ms ts < deadline) ios) out \<and>
   length (fst (gpg_read_loop deadline ios out)) \<le> max (length out) OUT_MAX"
proof
  show "gpg_read_loop deadline ios out = gpg_read_loop deadline (takeWhile (\<lambda>(ts, io). now_ms ts < deadline) ios) out"
    by (induction deadline ios out rule: gpg_read_loop.induct) (auto simp: Let_def split: gpg_io.split file_read.split)
  show "length (fst (gpg_read_loop deadline ios out)) \<le> max (length out) OUT_MAX"
    by (induction deadline ios out rule: gpg_read_loop.induct) (auto simp: Let_def split: gpg_io.split file_read.split)
qed

text \<open>
  The text of gpg that reaches the error log holds no control character, whatever gpg printed.
\<close>

lemma sanitise_out_printable:
  "list_all (\<lambda>c. CHR 0x20 \<le> c \<and> c \<noteq> CHR 0x7F) (sanitise_out out)"
  by (auto simp: sanitise_out_def sanitise_char_def less_char_def less_eq_char_def list_all_iff split: if_splits)

text \<open>
  C38: a verification whose gpg was killed at the deadline is reported good exactly if what had arrived by then
  holds a VALIDSIG line that names a fingerprint and no bad line, and the plaintext fitted: neither the timeout nor the exit status of the
  child enters the verdict.
\<close>

theorem gpg_killed_still_valid:
  assumes "gpg_verify ngx env gpg_path keyring msg timeout_ms res0 = (NGX_OK, res, eff)"
    and "status_end env timeout_ms = Loop_Timeout"
  defines "ls \<equiv> strtok_all LF (c_str (status_bytes env timeout_ms))"
  shows "Kill \<in> set eff \<and>
     (valid res \<longleftrightarrow> list_ex (\<lambda>l. validsig_line l \<and> validsig_fpr (sig_fields l) \<noteq> None) ls \<and>
        \<not> list_ex bad_line ls \<and> \<not> snd (captured_plain env))"
proof -
  from gpg_verify_run [OF assms(1)] obtain home eff' where
    run: "gpg_run ngx env (c_str gpg_path) keyring timeout_ms home
        (res0\<lparr>valid := False, fpr := [], plaintext := [], diag_level := 0\<rparr>) = (NGX_OK, res, eff')"
    by auto
  then have "fork_ok env" by (auto simp: gpg_run_def Let_def split: if_splits)
  then have "valid res \<longleftrightarrow> list_ex (\<lambda>l. validsig_line l \<and> validsig_fpr (sig_fields l) \<noteq> None) ls \<and>
        \<not> list_ex bad_line ls \<and> \<not> snd (captured_plain env)"
    using gpg_run_valid [OF run] assms(2) unfolding ls_def
    by (auto simp: parse_status_lines lines_status_def Let_def list_ex_iff)
  moreover have "Kill \<in> set eff"
    using assms(1,2) by (auto simp: gpg_verify_def gpg_run_def Let_def status_end_def split: if_splits option.splits prod.splits)
  ultimately show ?thesis by blast
qed

lemma sample_status_end: "status_end (sample_env sample_status plain ends) 2000 = (if ends then Loop_Eof else Loop_Timeout)"
  "status_bytes (sample_env sample_status plain ends) 2000 = sample_status"
  by (simp_all add: status_end_def status_bytes_def sample_loop_2000)

theorem gpg_killed_still_valid_witness:
  "status_end (sample_env sample_status sample_plain False) 2000 = Loop_Timeout \<and>
   Kill \<in> set (snd (snd (sample_verify False))) \<and> valid (fst (snd (sample_verify False)))"
proof -
  let ?r = "sample_verify False" and ?env = "sample_env sample_status sample_plain False"
  have run: "?r = (NGX_OK, fst (snd ?r), snd (snd ?r))" using sample_verify_result(1) [of False] by (metis surjective_pairing3)
  have "\<not> snd (captured_plain ?env)"
    using sample_len by (simp add: captured_plain_def sample_env_def NGX_HTTP_PGP_PLAINTEXT_MAX_def)
  then show ?thesis
    using gpg_killed_still_valid [OF run [unfolded sample_verify_def]]
    by (simp add: sample_status_end sample_status_lines sample_validsig_fpr sample_verify_def)
qed






text \<open>
  The path of the message file is terminated by a NUL byte exactly when the directory name
  leaves room for three more bytes; the check of the length of TMPDIR admits directory names that
  leave fewer.
\<close>

lemma gpg_path_terminated_iff:
  "NUL \<notin> set home \<Longrightarrow>
   NUL \<in> set (gpg_path_in home ''m'') \<longleftrightarrow> length home + 3 \<le> PATH_MAX"
proof -
  assume n: "NUL \<notin> set home"
  have "NUL \<in> set (take k (home @ ''/m'' @ [NUL])) \<longleftrightarrow> length home + 3 \<le> k" for k
  proof -
    have "take k (home @ ''/m'' @ [NUL]) = (if length home + 3 \<le> k then home @ ''/m'' @ [NUL]
        else take k (home @ ''/m''))"
      by (simp add: take_Cons' not_less_eq_eq)
    then show ?thesis using n by (auto dest: in_set_takeD)
  qed
  then show ?thesis by (simp add: gpg_path_in_def snprintf_def)
qed

end
