(* ===== verification/Nonce_Memory.thy ===== *)
theory Nonce_Memory
  imports Shm_Zone Gpg
begin

text \<open>
  The "memory" backend of \<open>ngx_http_pgp_auth_nonce.c\<close>: used challenges are remembered in a shared
  zone until they expire.  The zone is the structure of theory \<open>Shm_Zone\<close>; a node adds the
  expiry.  A zone pointer that may be NULL is an option.
\<close>

section \<open>Model\<close>

record nonce_node = shm_node +
  expire :: time_t

type_synonym 'p nonce_zone = "(nonce_node, 'p) shm_zone"

definition nonce_lookup :: "'p nonce_zone \<Rightarrow> 32 word \<Rightarrow> bytes \<Rightarrow> addr option" where
  "nonce_lookup z hash nonce = rbtree_lookup (nodes z) (rbtree z) hash nonce"

text \<open>Drop up to \<open>m\<close> entries from the old end of the queue, stopping at the first live one.\<close>

fun nonce_evict_expired :: "'p ngx_shm \<Rightarrow> 'p nonce_zone \<Rightarrow> time_t \<Rightarrow> nat \<Rightarrow> 'p nonce_zone" where
  "nonce_evict_expired shm z now 0 = z"
| "nonce_evict_expired shm z now (Suc m) =
     (if queue z = [] then z
      else let a = last (queue z); n = the (nodes z a) in
        if expire n > now then z
        else nonce_evict_expired shm (shm_unlink shm a z) now m)"

text \<open>\<open>offsetof (ngx_http_pgp_nonce_node_t, data)\<close>: the links, the expiry and the length.\<close>

definition nonce_data_offset :: "'p ngx_shm \<Rightarrow> nat" where
  "nonce_data_offset shm = links_size shm + 8 + 2"

definition nonce_fill :: "ngx_lib \<Rightarrow> bytes \<Rightarrow> time_t \<Rightarrow> nonce_node" where
  "nonce_fill ngx nonce exp = \<lparr>node_key = ngx_crc32_short ngx nonce, len = of_nat (length nonce),
     data = nonce, expire = exp\<rparr>"

definition nonce_memory :: "ngx_lib \<Rightarrow> 'p ngx_shm \<Rightarrow> time_t \<Rightarrow> verify_result \<Rightarrow> 'p nonce_zone option
    \<Rightarrow> bytes \<Rightarrow> time_t \<Rightarrow> ngx_rc \<times> verify_result \<times> 'p nonce_zone option" where
  "nonce_memory ngx shm now vr zone nonce exp =
     (case zone of
        None \<Rightarrow> (NGX_ERROR, vr, None)
      | Some z \<Rightarrow>
          if length nonce > 65535 then (NGX_ERROR, vr, Some z)
          else let hash = ngx_crc32_short ngx nonce;
                   z = nonce_evict_expired shm z now 8 in
            if nonce_lookup z hash nonce \<noteq> None then (NGX_DECLINED, vr, Some z)
            else let size = nonce_data_offset shm + length nonce in
              case slab_alloc shm (pool z) size of
                Some (a, p) \<Rightarrow>
                  (NGX_OK, vr, Some (shm_link shm a (nonce_fill ngx nonce exp) (z\<lparr>pool := p\<rparr>)))
              | None \<Rightarrow>
                  let z = nonce_evict_expired shm z now 512 in
                  (case slab_alloc shm (pool z) size of
                     Some (a, p) \<Rightarrow>
                       (NGX_OK, vr, Some (shm_link shm a (nonce_fill ngx nonce exp) (z\<lparr>pool := p\<rparr>)))
                   | None \<Rightarrow>
                       (NGX_ERROR,
                        defer_diag vr NGX_LOG_ERR
                          (''pgp_auth: nonce zone full with no expired entries to '' @
                           ''reclaim; denying login (raise pgp_auth_nonce_zone_size, '' @
                           ''or use pgp_auth_nonce_storage redis)''),
                        Some z)))"

section \<open>Eviction\<close>

text \<open>The spent nonces a zone remembers, with their expiry.\<close>

definition spent :: "'p nonce_zone \<Rightarrow> (bytes \<times> time_t) set" where
  "spent z = (\<lambda>n. (data n, expire n)) ` ran (nodes z)"

lemma spent_unlink:
  assumes "ngx_shm_api shm live" "zone_ok crc live z" "nodes z a = Some n"
  shows "spent (shm_unlink shm a z) = {(s, e) \<in> spent z. s \<noteq> data n}"
  by (auto simp: spent_def ngx_shm_api.unlink_ran [OF assms])

context ngx_shm_api
begin

lemma spent_unique:
  assumes "zone_ok crc live z" "(s, e) \<in> spent z" "(s, e') \<in> spent z"
  shows "e = e'"
proof -
  obtain a n b m where "nodes z a = Some n" "nodes z b = Some m" "data n = s" "data m = s"
      "expire n = e" "expire m = e'"
    using assms(2,3) by (auto simp: spent_def ran_def)
  moreover from this have "a = b" using zone_key_unique [OF assms(1)] by metis
  ultimately show ?thesis by simp
qed

lemma evict_step:
  assumes ok: "zone_ok crc live z" and ne: "queue z \<noteq> []"
  obtains n where "nodes z (last (queue z)) = Some n" "zone_ok crc live (shm_unlink shm (last (queue z)) z)"
    "spent (shm_unlink shm (last (queue z)) z) = spent z - {(data n, expire n)}"
proof -
  have "last (queue z) \<in> dom (nodes z)" using ok ne by (auto simp: zone_ok_def)
  then obtain n where n: "nodes z (last (queue z)) = Some n" by auto
  have "zone_ok crc live (shm_unlink shm (last (queue z)) z)"
    using ok n by (intro unlink_ok) auto
  moreover have "(data n, expire n) \<in> spent z" using n by (auto simp: spent_def ran_def)
  then have "spent (shm_unlink shm (last (queue z)) z) = spent z - {(data n, expire n)}"
    using spent_unlink [OF ngx_shm_api_axioms ok n] spent_unique [OF ok] by auto
  ultimately show ?thesis using that n by blast
qed

text \<open>One fact per way an eviction pass can go: stop at once, or drop the oldest entry and go on.\<close>

lemma evict_induct [consumes 1, case_names stop step]:
  assumes "zone_ok crc live z"
    and stop: "\<And>z m. zone_ok crc live z \<Longrightarrow> nonce_evict_expired shm z now m = z \<Longrightarrow> P z m z"
    and step: "\<And>z n m z'. zone_ok crc live z \<Longrightarrow> queue z \<noteq> [] \<Longrightarrow> nodes z (last (queue z)) = Some n \<Longrightarrow>
        expire n \<le> now \<Longrightarrow> zone_ok crc live (shm_unlink shm (last (queue z)) z) \<Longrightarrow>
        spent (shm_unlink shm (last (queue z)) z) = spent z - {(data n, expire n)} \<Longrightarrow>
        P (shm_unlink shm (last (queue z)) z) m z' \<Longrightarrow> P z (Suc m) z'"
  shows "P z m (nonce_evict_expired shm z now m)"
  using assms(1)
proof (induction m arbitrary: z)
  case 0
  then show ?case using stop by simp
next
  case (Suc m)
  let ?a = "last (queue z)"
  show ?case
  proof (cases "queue z = [] \<or> expire (the (nodes z ?a)) > now")
    case True
    then have "nonce_evict_expired shm z now (Suc m) = z" by auto
    then show ?thesis using stop Suc.prems by metis
  next
    case False
    then obtain n where n: "nodes z ?a = Some n" "zone_ok crc live (shm_unlink shm ?a z)"
        "spent (shm_unlink shm ?a z) = spent z - {(data n, expire n)}"
      using evict_step [OF Suc.prems] by blast
    have "P (shm_unlink shm ?a z) m (nonce_evict_expired shm (shm_unlink shm ?a z) now m)"
      using Suc.IH n(2) .
    then show ?thesis
      using step [OF Suc.prems _ n(1) _ n(2,3)] False n(1) by (simp add: Let_def)
  qed
qed

lemma evict_ok: "zone_ok crc live z \<Longrightarrow> zone_ok crc live (nonce_evict_expired shm z now m)"
  by (induction rule: evict_induct) auto

lemma evict_subset: "zone_ok crc live z \<Longrightarrow> spent (nonce_evict_expired shm z now m) \<subseteq> spent z"
  by (induction rule: evict_induct) auto

text \<open>No live entry is ever evicted.\<close>

lemma evict_keeps_live:
  "zone_ok crc live z \<Longrightarrow> (s, e) \<in> spent z \<Longrightarrow> e > now \<Longrightarrow>
     (s, e) \<in> spent (nonce_evict_expired shm z now m)"
  by (induction rule: evict_induct) auto

lemma evict_bound:
  "zone_ok crc live z \<Longrightarrow> length (queue z) \<le> length (queue (nonce_evict_expired shm z now m)) + m"
  by (rule evict_induct [where P = "\<lambda>z m z'. length (queue z) \<le> length (queue z') + m"])
    (auto simp: shm_unlink_def length_remove1)

text \<open>Entries are dropped from the old end only, in order.\<close>

lemma evict_prefix:
  "zone_ok crc live z \<Longrightarrow> \<exists>old. queue z = queue (nonce_evict_expired shm z now m) @ old"
proof (induction rule: evict_induct)
  case (step z n m z')
  then have "queue z = queue (shm_unlink shm (last (queue z)) z) @ [last (queue z)]"
    by (simp add: zone_ok_def shm_unlink_def remove1_last)
  then show ?case
    using step.IH by (metis append.assoc)
qed simp

text \<open>
  Which entries a pass of at most \<open>m\<close> steps drops: those that have expired, have fewer than \<open>m\<close>
  older ones and no older one that is still alive.
\<close>

lemma evict_position:
  assumes "zone_ok crc live z" "queue z = front @ a # older" "nodes z a = Some nd"
  shows "data nd \<in> fst ` spent (nonce_evict_expired shm z now m) \<longleftrightarrow>
     \<not> (length older < m \<and> (\<forall>b \<in> set (a # older). expire (the (nodes z b)) \<le> now))"
  using assms
proof (induction m arbitrary: z older)
  case 0
  then show ?case by (auto simp: spent_def ran_def image_iff)
next
  case (Suc m)
  let ?c = "last (queue z)"
  have here: "data nd \<in> fst ` spent z" "(data nd, expire nd) \<in> spent z"
    using Suc.prems(3) by (auto simp: spent_def ran_def image_iff)
  have c: "?c \<in> set (a # older)" and ne: "queue z \<noteq> []" using Suc.prems(2) by (auto simp: last_append)
  from evict_step [OF Suc.prems(1) ne] obtain n where n: "nodes z ?c = Some n"
      "zone_ok crc live (shm_unlink shm ?c z)" "spent (shm_unlink shm ?c z) = spent z - {(data n, expire n)}" .
  show ?case
  proof (cases "expire n > now")
    case True
    then have "nonce_evict_expired shm z now (Suc m) = z" using n(1) ne by simp
    moreover have "\<not> (\<forall>b \<in> set (a # older). expire (the (nodes z b)) \<le> now)" using True c n(1) by force
    ultimately show ?thesis using here by metis
  next
    case False
    then have ev: "nonce_evict_expired shm z now (Suc m) = nonce_evict_expired shm (shm_unlink shm ?c z) now m"
      using n(1) ne by simp
    show ?thesis
    proof (cases older rule: rev_cases)
      case Nil
      then have "n = nd" using n(1) Suc.prems(2,3) by simp
      then have "data nd \<notin> fst ` spent (shm_unlink shm ?c z)"
        using n(3) spent_unique [OF Suc.prems(1) _ here(2)] by force
      then have "data nd \<notin> fst ` spent (nonce_evict_expired shm (shm_unlink shm ?c z) now m)"
        using evict_subset [OF n(2), of now m] by auto
      then show ?thesis using ev Nil False Suc.prems(3) \<open>n = nd\<close> by simp
    next
      case (snoc older' d)
      then have d: "?c = d" using Suc.prems(2) by simp
      have "distinct (queue z)" using Suc.prems(1) by (simp add: zone_ok_def)
      then have dist: "d \<notin> set (a # older')" and q: "queue (shm_unlink shm ?c z) = front @ a # older'"
        using Suc.prems(2) snoc d by (auto simp: shm_unlink_def remove1_append)
      have keep: "nodes (shm_unlink shm ?c z) b = nodes z b" if "b \<in> set (a # older')" for b
        using that dist d by (auto simp: shm_unlink_def)
      then have "nodes (shm_unlink shm ?c z) a = Some nd" using Suc.prems(3) by simp
      note IH = Suc.IH [OF n(2) q this]
      have "expire (the (nodes z d)) \<le> now" using False n(1) d by simp
      then show ?thesis using IH keep ev snoc by auto
    qed
  qed
qed

end

section \<open>The contract of a single-use store\<close>

text \<open>\<open>kept now K S\<close>: \<open>K\<close> is \<open>S\<close> without some of its expired entries.\<close>

definition kept :: "time_t \<Rightarrow> (bytes \<times> time_t) set \<Rightarrow> (bytes \<times> time_t) set \<Rightarrow> bool" where
  "kept now K S \<longleftrightarrow> K \<subseteq> S \<and> (\<forall>s e. (s, e) \<in> S \<longrightarrow> now < e \<longrightarrow> (s, e) \<in> K)"

text \<open>
  What recording a nonce may do to the set \<open>S\<close> of spent nonces at time \<open>now\<close>: some entries that
  have expired are forgotten, \<open>K\<close> is what is kept; then the nonce is accepted only if it is not
  in \<open>K\<close>, and it is remembered with its expiry.
\<close>

definition consume_spec :: "time_t \<Rightarrow> bytes \<Rightarrow> time_t \<Rightarrow> (bytes \<times> time_t) set \<Rightarrow> ngx_rc
    \<Rightarrow> (bytes \<times> time_t) set \<Rightarrow> bool" where
  "consume_spec now nonce exp S rc S' \<longleftrightarrow>
     (\<exists>K. kept now K S \<and>
        (rc = NGX_OK \<and> nonce \<notin> fst ` K \<and> S' = insert (nonce, exp) K \<or>
         rc = NGX_DECLINED \<and> nonce \<in> fst ` K \<and> S' = K \<or>
         rc = NGX_ERROR \<and> S' = K))"

lemma consume_spec_intros:
  "kept now K S \<Longrightarrow> nonce \<notin> fst ` K \<Longrightarrow> consume_spec now nonce exp S NGX_OK (insert (nonce, exp) K)"
  "kept now K S \<Longrightarrow> nonce \<in> fst ` K \<Longrightarrow> consume_spec now nonce exp S NGX_DECLINED K"
  "kept now K S \<Longrightarrow> consume_spec now nonce exp S NGX_ERROR K"
  by (auto simp: consume_spec_def)

lemma consume_spec_cases [consumes 1, case_names accept refuse fail]:
  assumes "consume_spec now nonce exp S rc S'"
  obtains K where "kept now K S" "rc = NGX_OK" "nonce \<notin> fst ` K" "S' = insert (nonce, exp) K"
    | "kept now S' S" "rc = NGX_DECLINED" "nonce \<in> fst ` S'"
    | "kept now S' S" "rc = NGX_ERROR"
  using assms by (auto simp: consume_spec_def)

lemma keptD: "kept now K S \<Longrightarrow> (s, e) \<in> S \<Longrightarrow> now < e \<Longrightarrow> (s, e) \<in> K"
  by (simp add: kept_def)

lemma kept_refl [simp]: "kept now S S"
  by (simp add: kept_def)

lemma kept_trans: "kept now K L \<Longrightarrow> kept now L S \<Longrightarrow> kept now K S"
  by (auto simp: kept_def)

text \<open>A history of login attempts: time, nonce and expiry of each call, and the verdicts.\<close>

fun store_run :: "('s \<Rightarrow> time_t \<Rightarrow> bytes \<Rightarrow> time_t \<Rightarrow> ngx_rc \<times> 's) \<Rightarrow> 's
    \<Rightarrow> (time_t \<times> bytes \<times> time_t) list \<Rightarrow> ngx_rc list" where
  "store_run consume s [] = []"
| "store_run consume s ((now, nonce, exp) # calls) =
     (case consume s now nonce exp of (rc, s') \<Rightarrow> rc # store_run consume s' calls)"

locale single_use_store =
  fixes consume :: "'s \<Rightarrow> time_t \<Rightarrow> bytes \<Rightarrow> time_t \<Rightarrow> ngx_rc \<times> 's"
    and store_ok :: "'s \<Rightarrow> bool"
    and spent_of :: "'s \<Rightarrow> (bytes \<times> time_t) set"
  assumes consume_store: "store_ok s \<Longrightarrow> consume s now nonce exp = (rc, s') \<Longrightarrow>
      store_ok s' \<and> consume_spec now nonce exp (spent_of s) rc (spent_of s')"
begin

lemma spent_kept:
  assumes "store_ok s" "consume s now m f = (rc, s')" "(n, e) \<in> spent_of s" "now < e"
  shows "(n, e) \<in> spent_of s'"
proof -
  from consume_store [OF assms(1,2)] have "consume_spec now m f (spent_of s) rc (spent_of s')" ..
  then show ?thesis
    by (cases rule: consume_spec_cases) (use assms(3,4) in \<open>auto dest: keptD\<close>)
qed

lemma spent_refused:
  assumes "store_ok s" "consume s now n f = (rc, s')" "(n, e) \<in> spent_of s" "now < e"
  shows "rc \<noteq> NGX_OK"
proof -
  from consume_store [OF assms(1,2)] have "consume_spec now n f (spent_of s) rc (spent_of s')" ..
  then show ?thesis
  proof (cases rule: consume_spec_cases)
    case (accept K)
    from keptD [OF accept(1) assms(3,4)] accept(3) show ?thesis by (metis fst_conv image_eqI)
  qed simp_all
qed

lemma accepted_spent:
  assumes "store_ok s" "consume s now n e = (NGX_OK, s')"
  shows "(n, e) \<in> spent_of s'"
proof -
  from consume_store [OF assms] have "consume_spec now n e (spent_of s) NGX_OK (spent_of s')" ..
  then show ?thesis by (cases rule: consume_spec_cases) auto
qed

lemma run_refuses:
  assumes "store_ok s" "(n, e) \<in> spent_of s" "j < length calls" "calls ! j = (t, n, f)"
    and "\<And>k. k \<le> j \<Longrightarrow> fst (calls ! k) < e"
  shows "store_run consume s calls ! j \<noteq> NGX_OK"
  using assms
proof (induction calls arbitrary: s j)
  case (Cons c calls)
  obtain now m f' where c: "c = (now, m, f')" by (cases c)
  obtain rc s' where step: "consume s now m f' = (rc, s')" by fastforce
  have "now < e" using Cons.prems(5) [of 0] by (simp add: c)
  note kept = spent_kept [OF Cons.prems(1) step Cons.prems(2) this]
    and refused = spent_refused [OF Cons.prems(1) _ Cons.prems(2) this]
  show ?case
  proof (cases j)
    case 0
    then have "m = n" using Cons.prems(4) c by simp
    then show ?thesis using 0 refused step c by auto
  next
    case (Suc i)
    have "store_run consume s' calls ! i \<noteq> NGX_OK"
    proof (rule Cons.IH [OF _ kept])
      show "store_ok s'" using consume_store [OF Cons.prems(1) step] by simp
      show "i < length calls" "calls ! i = (t, n, f)" using Cons.prems(3,4) Suc by auto
      show "fst (calls ! k) < e" if "k \<le> i" for k using Cons.prems(5) [of "Suc k"] that Suc by simp
    qed
    then show ?thesis using Suc step c by simp
  qed
qed simp

text \<open>In any history, a nonce that was accepted once is refused for as long as its challenge lives.\<close>

lemma run_single_use:
  assumes "store_ok s" "i < j" "j < length calls" "calls ! i = (t, n, e)" "calls ! j = (t', n, e')"
    and "store_run consume s calls ! i = NGX_OK"
    and "sorted (map fst calls)" "t' < e"
  shows "store_run consume s calls ! j \<noteq> NGX_OK"
  using assms
proof (induction calls arbitrary: s i j)
  case (Cons c calls)
  obtain now m f where c: "c = (now, m, f)" by (cases c)
  obtain rc s' where step: "consume s now m f = (rc, s')" by fastforce
  have ok': "store_ok s'" using consume_store [OF Cons.prems(1) step] by simp
  obtain j' where j': "j = Suc j'" using Cons.prems(2) by (cases j) auto
  have "store_run consume s' calls ! j' \<noteq> NGX_OK"
  proof (cases i)
    case 0
    then have "consume s now n e = (NGX_OK, s')" "m = n" "f = e"
      using Cons.prems(4,6) c step by auto
    then have "(n, e) \<in> spent_of s'" using accepted_spent [OF Cons.prems(1)] by blast
    moreover have "fst (calls ! k) < e" if "k \<le> j'" for k
    proof -
      have "fst (calls ! k) \<le> fst (calls ! j')"
        using Cons.prems(3,7) that j' sorted_nth_mono [of "map fst calls" k j'] by auto
      also have "\<dots> < e" using Cons.prems(5,8) j' by simp
      finally show ?thesis .
    qed
    ultimately show ?thesis
      using run_refuses [OF ok'] Cons.prems(3,5) j' by auto
  next
    case (Suc i')
    then show ?thesis using Cons.IH [OF ok', of i' j'] Cons.prems j' c step by auto
  qed
  then show ?case using j' c step by simp
qed simp

end

section \<open>The memory backend meets the contract\<close>

definition blank_result :: verify_result where
  "blank_result = \<lparr>valid = False, fpr = [], plaintext = [], diag_level = 0, diag = [],
     chal_done = False, chal_rc = NGX_ERROR, chal_reason = None\<rparr>"

text \<open>The store operation of the backend: verdict and new zone (the diagnostic left aside).\<close>

definition mem_consume :: "ngx_lib \<Rightarrow> 'p ngx_shm \<Rightarrow> 'p nonce_zone \<Rightarrow> time_t \<Rightarrow> bytes \<Rightarrow> time_t
    \<Rightarrow> ngx_rc \<times> 'p nonce_zone" where
  "mem_consume ngx shm z now nonce exp =
     (case nonce_memory ngx shm now blank_result (Some z) nonce exp of (rc, _, z') \<Rightarrow> (rc, the z'))"

lemma nonce_memory_consume:
  "nonce_memory ngx shm now vr (Some z) nonce exp = (rc, vr', zo) \<Longrightarrow>
     \<exists>z'. zo = Some z' \<and> mem_consume ngx shm z now nonce exp = (rc, z')"
  by (auto simp: nonce_memory_def mem_consume_def Let_def split: if_splits option.splits)

lemma nonce_fill_ok: "length nonce \<le> 65535 \<Longrightarrow> node_ok (ngx_crc32_short ngx) (nonce_fill ngx nonce exp)"
  by (simp add: node_ok_def nonce_fill_def unat_of_nat)

lemma spent_keys: "fst ` spent z = data ` ran (nodes z)"
  by (simp add: spent_def image_image)

context ngx_shm_api
begin

lemma evict_kept: "zone_ok crc live z \<Longrightarrow> kept now (spent (nonce_evict_expired shm z now m)) (spent z)"
  by (simp add: kept_def evict_subset evict_keeps_live)

lemma link_spent:
  fixes exp :: time_t
  assumes "zone_ok (ngx_crc32_short ngx) live z" "length nonce \<le> 65535" "nonce \<notin> fst ` spent z"
    and "slab_alloc shm (pool z) k = Some (a, p')"
  defines "z' \<equiv> shm_link shm a (nonce_fill ngx nonce exp) (z\<lparr>pool := p'\<rparr>)"
  shows "zone_ok (ngx_crc32_short ngx) live z' \<and> spent z' = insert (nonce, exp) (spent z)"
proof -
  have new: "\<And>m. m \<in> ran (nodes z) \<Longrightarrow> data m \<noteq> data (nonce_fill ngx nonce exp)"
    using assms(3) by (auto simp: spent_keys nonce_fill_def)
  note link = link_ok [OF assms(1) nonce_fill_ok [OF assms(2)] new assms(4)]
  show ?thesis
    using link(1,2) unfolding z'_def by (simp add: spent_def) (simp add: nonce_fill_def)
qed

lemma lookup_spent:
  assumes "zone_ok (ngx_crc32_short ngx) live z" "length nonce \<le> 65535"
  shows "nonce_lookup z (ngx_crc32_short ngx nonce) nonce \<noteq> None \<longleftrightarrow> nonce \<in> fst ` spent z"
  using zone_lookup_None [OF assms(1), of nonce] assms(2) by (auto simp: nonce_lookup_def spent_keys)

lemma mem_consume_cases:
  fixes now exp :: time_t
  assumes ok: "zone_ok (ngx_crc32_short ngx) live z" and "length nonce \<le> 65535"
  defines "z1 \<equiv> nonce_evict_expired shm z now 8"
  defines "z2 \<equiv> nonce_evict_expired shm z1 now 512"
  defines "sz \<equiv> nonce_data_offset shm + length nonce"
  defines "link \<equiv> (\<lambda>z a p. shm_link shm a (nonce_fill ngx nonce exp) (z\<lparr>pool := p\<rparr>))"
  shows "mem_consume ngx shm z now nonce exp =
     (if nonce \<in> fst ` spent z1 then (NGX_DECLINED, z1)
      else case slab_alloc shm (pool z1) sz of
        Some (a, p) \<Rightarrow> (NGX_OK, link z1 a p)
      | None \<Rightarrow> (case slab_alloc shm (pool z2) sz of
          Some (a, p) \<Rightarrow> (NGX_OK, link z2 a p) | None \<Rightarrow> (NGX_ERROR, z2)))"
  using assms(2) lookup_spent [OF evict_ok [OF ok, of now 8] assms(2)]
  by (auto simp: mem_consume_def nonce_memory_def Let_def z1_def z2_def sz_def link_def split: option.splits)

lemma mem_consume_meets_spec:
  assumes ok: "zone_ok (ngx_crc32_short ngx) live z"
    and run: "mem_consume ngx shm z now nonce exp = (rc, z')"
  shows "zone_ok (ngx_crc32_short ngx) live z' \<and> consume_spec now nonce exp (spent z) rc (spent z')"
proof (cases "length nonce \<le> 65535")
  case False
  then have "rc = NGX_ERROR" "z' = z"
    using run by (auto simp: mem_consume_def nonce_memory_def)
  then show ?thesis using ok by (auto simp: consume_spec_def)
next
  case True
  define z1 where "z1 = nonce_evict_expired shm z now 8"
  define z2 where "z2 = nonce_evict_expired shm z1 now 512"
  have ok1: "zone_ok (ngx_crc32_short ngx) live z1" and k1: "kept now (spent z1) (spent z)"
    using ok unfolding z1_def by (auto intro: evict_ok evict_kept)
  have ok2: "zone_ok (ngx_crc32_short ngx) live z2" and k12: "kept now (spent z2) (spent z1)"
    using ok1 unfolding z2_def by (auto intro: evict_ok evict_kept)
  note k2 = kept_trans [OF k12 k1]
  note cases = mem_consume_cases [OF ok True, of now exp, folded z1_def, folded z2_def]
  consider (seen) "nonce \<in> fst ` spent z1" "rc = NGX_DECLINED" "z' = z1"
    | (first) a p where "nonce \<notin> fst ` spent z1" "rc = NGX_OK"
        "slab_alloc shm (pool z1) (nonce_data_offset shm + length nonce) = Some (a, p)"
        "z' = shm_link shm a (nonce_fill ngx nonce exp) (z1\<lparr>pool := p\<rparr>)"
    | (second) a p where "nonce \<notin> fst ` spent z1" "rc = NGX_OK"
        "slab_alloc shm (pool z2) (nonce_data_offset shm + length nonce) = Some (a, p)"
        "z' = shm_link shm a (nonce_fill ngx nonce exp) (z2\<lparr>pool := p\<rparr>)"
    | (full) "rc = NGX_ERROR" "z' = z2"
    using run unfolding cases by (auto split: if_splits option.splits prod.splits)
  then show ?thesis
  proof cases
    case seen
    then show ?thesis using ok1 k1 by (simp add: consume_spec_intros)
  next
    case first
    then show ?thesis
      using link_spent [OF ok1 True first(1,3)] k1 by (simp add: consume_spec_intros)
  next
    case second
    have "nonce \<notin> fst ` spent z2" using second(1) k12 by (auto simp: kept_def)
    then show ?thesis
      using second link_spent [OF ok2 True _ second(3)] k2 by (simp add: consume_spec_intros)
  next
    case full
    then show ?thesis using ok2 k2 by (simp add: consume_spec_intros)
  qed
qed

lemma memory_store:
  "single_use_store (mem_consume ngx shm) (zone_ok (ngx_crc32_short ngx) live) spent"
  by unfold_locales (rule mem_consume_meets_spec)

end

interpretation ref_store: single_use_store "mem_consume ngx_ref shm_ref"
  "zone_ok (ngx_crc32_short ngx_ref) live_ref" spent
  by (rule ref_shm.memory_store)

section \<open>Properties\<close>

text \<open>
  C11: recording a nonce in the shared zone refines the set-of-spent-nonces specification on every
  branch: accepted only if unknown and then remembered until its expiry, refused if known,
  an error (zone full, nonce too long) leaves what is unexpired untouched; the zone
  invariant (tree and queue hold exactly the stored nodes, the tree is ordered, lengths are not truncated) is kept.
\<close>

theorem nonce_memory_refines:
  assumes "ngx_shm_api shm live" "zone_ok (ngx_crc32_short ngx) live z"
    and "nonce_memory ngx shm now vr (Some z) nonce exp = (rc, vr', zone')"
  shows "\<exists>z'. zone' = Some z' \<and> zone_ok (ngx_crc32_short ngx) live z' \<and>
     consume_spec now nonce exp (spent z) rc (spent z')"
  using nonce_memory_consume [OF assms(3)] ngx_shm_api.mem_consume_meets_spec [OF assms(1,2)] by blast

text \<open>A zone with room for four nonces, for concrete runs.\<close>

definition sample_zone :: "slab_ref nonce_zone" where
  "sample_zone = empty_zone (pool_ref 4)"

text \<open>Unfolding an eviction pass whose bound is a numeral.\<close>

lemma evict_numeral:
  "nonce_evict_expired shm z now (numeral k) =
     (if queue z = [] then z
      else let a = last (queue z); n = the (nodes z a) in
        if expire n > now then z
        else nonce_evict_expired shm (shm_unlink shm a z) now (pred_numeral k))"
  by (simp add: numeral_eq_Suc)

lemmas nonce_eval = nonce_memory_def mem_consume_def nonce_lookup_def evict_numeral nonce_fill_def
  nonce_data_offset_def sample_zone_def empty_zone_def pool_ref_def shm_ref_def ngx_ref_def
  shm_link_def shm_unlink_def rbtree_insert_def Let_def

lemma sample_zone_ok: "zone_ok (ngx_crc32_short ngx_ref) live_ref sample_zone"
  by (simp add: sample_zone_def empty_zone_ok)

lemma sample_zone_spent [simp]: "spent sample_zone = {}"
  by (simp add: sample_zone_def empty_zone_def spent_def)

theorem nonce_memory_refines_witness:
  "\<exists>z'. snd (snd (nonce_memory ngx_ref shm_ref 100 blank_result (Some sample_zone) ''n1'' 200)) = Some z' \<and>
     zone_ok (ngx_crc32_short ngx_ref) live_ref z' \<and> consume_spec 100 ''n1'' 200 {} NGX_OK (spent z')"
proof -
  let ?r = "nonce_memory ngx_ref shm_ref 100 blank_result (Some sample_zone) ''n1'' 200"
  have ok: "fst ?r = NGX_OK" by (simp add: nonce_eval)
  have "?r = (fst ?r, fst (snd ?r), snd (snd ?r))" by simp
  from nonce_memory_refines [OF ref_shm.ngx_shm_api_axioms sample_zone_ok this] show ?thesis
    by (simp only: ok sample_zone_spent)
qed

text \<open>
  Single use.  In any history of attempts with non-decreasing clock, once a challenge's nonce
  was accepted, every later attempt with the same nonce is refused while the clock is before the
  challenge's expiry.
\<close>

lemma nonce_single_use:
  assumes "ngx_shm_api shm live" "zone_ok (ngx_crc32_short ngx) live z"
    and "i < j" "j < length calls" "calls ! i = (t, n, e)" "calls ! j = (t', n, e')"
    and "store_run (mem_consume ngx shm) z calls ! i = NGX_OK"
    and "sorted (map fst calls)" "t' < e"
  shows "store_run (mem_consume ngx shm) z calls ! j \<noteq> NGX_OK"
  using single_use_store.run_single_use [OF ngx_shm_api.memory_store [OF assms(1)] assms(2-)] .

text \<open>
  C30: a nonce that was never used is accepted whenever the allocator has room for it after the
  first eviction pass.
\<close>

theorem nonce_fresh_accepted:
  assumes "ngx_shm_api shm live" "zone_ok (ngx_crc32_short ngx) live z"
    and "length nonce \<le> 65535" "nonce \<notin> fst ` spent z"
    and "slab_alloc shm (pool (nonce_evict_expired shm z now 8)) (nonce_data_offset shm + length nonce) \<noteq> None"
  shows "fst (mem_consume ngx shm z now nonce exp) = NGX_OK"
proof -
  have "nonce \<notin> fst ` spent (nonce_evict_expired shm z now 8)"
    using ngx_shm_api.evict_subset [OF assms(1,2), of now 8] assms(4) by auto
  then show ?thesis
    using ngx_shm_api.mem_consume_cases [OF assms(1-3)] assms(5) by auto
qed

theorem nonce_fresh_accepted_witness:
  "fst (mem_consume ngx_ref shm_ref sample_zone 100 ''n1'' 200) = NGX_OK"
proof -
  have "slab_alloc shm_ref (pool (nonce_evict_expired shm_ref sample_zone 100 8))
      (nonce_data_offset shm_ref + length ''n1'') \<noteq> None" by (simp add: nonce_eval)
  from nonce_fresh_accepted [OF ref_shm.ngx_shm_api_axioms sample_zone_ok _ _ this] show ?thesis
    by simp
qed

text \<open>
  The work of one login on the shared zone is bounded: at most 8 + 512 entries are evicted, and
  at most one is added.
\<close>

lemma nonce_memory_bounded:
  assumes "ngx_shm_api shm live" "zone_ok (ngx_crc32_short ngx) live z"
    and "mem_consume ngx shm z now nonce exp = (rc, z')"
  shows "length (queue z) \<le> length (queue z') + 520 \<and> length (queue z') \<le> Suc (length (queue z))"
proof (cases "length nonce \<le> 65535")
  case False
  then show ?thesis using assms(3) by (auto simp: mem_consume_def nonce_memory_def)
next
  case True
  define z1 where "z1 = nonce_evict_expired shm z now 8"
  define z2 where "z2 = nonce_evict_expired shm z1 now 512"
  have ok1: "zone_ok (ngx_crc32_short ngx) live z1"
    unfolding z1_def by (rule ngx_shm_api.evict_ok [OF assms(1,2)])
  have "length (queue z) \<le> length (queue z1) + 8" "length (queue z1) \<le> length (queue z)"
    using ngx_shm_api.evict_bound [OF assms(1,2), of now 8] ngx_shm_api.evict_prefix [OF assms(1,2), of now 8]
    by (auto simp: z1_def)
  moreover have "length (queue z1) \<le> length (queue z2) + 512" "length (queue z2) \<le> length (queue z1)"
    using ngx_shm_api.evict_bound [OF assms(1) ok1, of now 512] ngx_shm_api.evict_prefix [OF assms(1) ok1, of now 512]
    by (auto simp: z2_def)
  moreover have "queue z' \<in> {queue z1, queue z2} \<or> (\<exists>a. queue z' \<in> {a # queue z1, a # queue z2})"
    using ngx_shm_api.mem_consume_cases [OF assms(1,2) True, of now exp] assms(3)
    by (auto simp: z1_def z2_def shm_link_def Let_def split: if_splits option.splits)
  ultimately show ?thesis by auto
qed

text \<open>
  C32: when a spent nonce is forgotten.  The queue holds the entries from the newest to the oldest; \<open>a\<close> is
  the entry of the nonce and \<open>older\<close> are those recorded before it.  If there are fewer than eight older
  entries and neither they nor the entry itself expire after \<open>now\<close>, the entry is evicted before the lookup
  and the nonce is accepted again, if there is room for it; this includes the very second of its expiry.  In
  all other cases the nonce is refused, even long after its expiry.
\<close>

theorem nonce_forgotten_at_expiry:
  fixes now :: time_t
  assumes "ngx_shm_api shm live" "zone_ok (ngx_crc32_short ngx) live z"
    and "queue z = front @ a # older" "nodes z a = Some nd"
  defines "forgotten \<equiv> length older < 8 \<and> (\<forall>b \<in> set (a # older). expire (the (nodes z b)) \<le> now)"
  shows "(forgotten \<and> slab_alloc shm (pool (nonce_evict_expired shm z now 8)) (nonce_data_offset shm + length (data nd)) \<noteq> None
      \<longrightarrow> fst (mem_consume ngx shm z now (data nd) exp) = NGX_OK) \<and>
    (\<not> forgotten \<longrightarrow> fst (mem_consume ngx shm z now (data nd) exp) = NGX_DECLINED)"
proof -
  have "node_ok (ngx_crc32_short ngx) nd" using assms(2,4) by (auto simp: zone_ok_def ran_def)
  then have len: "length (data nd) \<le> 65535"
    using unsigned_less [of "len nd", where ?'a = nat] by (simp add: node_ok_def)
  have "data nd \<in> fst ` spent (nonce_evict_expired shm z now 8) \<longleftrightarrow> \<not> forgotten"
    unfolding forgotten_def by (rule ngx_shm_api.evict_position [OF assms(1-4)])
  then show ?thesis
    using ngx_shm_api.mem_consume_cases [OF assms(1,2) len, of now exp] by auto
qed

text \<open>
  A login at time 90 with a challenge that expires at \<open>exp\<close>, and a second one whose challenge
  expires at 110.
\<close>

definition one_login :: "time_t \<Rightarrow> slab_ref nonce_zone" where
  "one_login exp = snd (mem_consume ngx_ref shm_ref sample_zone 90 ''n1'' exp)"

definition two_logins :: "time_t \<Rightarrow> slab_ref nonce_zone" where
  "two_logins exp = snd (mem_consume ngx_ref shm_ref (one_login exp) 90 ''n2'' 110)"

lemma logins_ok:
  "zone_ok (ngx_crc32_short ngx_ref) live_ref (one_login exp)"
  "zone_ok (ngx_crc32_short ngx_ref) live_ref (two_logins exp)"
  using ref_shm.mem_consume_meets_spec [OF sample_zone_ok surjective_pairing]
    ref_shm.mem_consume_meets_spec [of ngx_ref "one_login exp", OF _ surjective_pairing]
  by (simp_all add: one_login_def two_logins_def)

lemma one_login_fields:
  "queue (one_login exp) = [0]" "nodes (one_login exp) = [0 \<mapsto> nonce_fill ngx_ref ''n1'' exp]"
  "pool (one_login exp) = snd (the (slab_alloc shm_ref (pool_ref 4) 0))"
  by (simp_all add: one_login_def nonce_eval)

lemma two_logins_fields:
  assumes "90 < exp"
  shows "queue (two_logins exp) = [1, 0]"
    "nodes (two_logins exp) = [0 \<mapsto> nonce_fill ngx_ref ''n1'' exp, 1 \<mapsto> nonce_fill ngx_ref ''n2'' 110]"
proof -
  have ev: "nonce_evict_expired shm_ref (one_login exp) 90 8 = one_login exp"
    using assms by (simp add: evict_numeral one_login_fields nonce_fill_def)
  have "''n2'' \<notin> fst ` spent (one_login exp)" by (simp add: spent_def one_login_fields nonce_fill_def)
  moreover obtain p where "slab_alloc shm_ref (pool (one_login exp)) (nonce_data_offset shm_ref + 2) = Some (1, p)"
    by (simp add: one_login_fields shm_ref_def pool_ref_def)
  ultimately have "two_logins exp = shm_link shm_ref 1 (nonce_fill ngx_ref ''n2'' 110) ((one_login exp)\<lparr>pool := p\<rparr>)"
    using ref_shm.mem_consume_cases [OF logins_ok(1) [of exp], of "''n2''" 90 110] ev by (simp add: two_logins_def)
  then show "queue (two_logins exp) = [1, 0]"
    "nodes (two_logins exp) = [0 \<mapsto> nonce_fill ngx_ref ''n1'' exp, 1 \<mapsto> nonce_fill ngx_ref ''n2'' 110]"
    by (simp_all add: shm_link_def Let_def one_login_fields)
qed

theorem nonce_forgotten_at_expiry_witness:
  "fst (mem_consume ngx_ref shm_ref (one_login 100) 100 ''n1'' 100) = NGX_OK \<and>
   fst (mem_consume ngx_ref shm_ref (two_logins 120) 110 ''n2'' 110) = NGX_DECLINED"
proof
  note use = nonce_forgotten_at_expiry [OF ref_shm.ngx_shm_api_axioms]
  have "slab_alloc shm_ref (pool (nonce_evict_expired shm_ref (one_login 100) 100 8))
      (nonce_data_offset shm_ref + length ''n1'') \<noteq> None"
    by (simp add: one_login_def nonce_eval)
  with use [OF logins_ok(1) [of 100], where front = "[]" and a = 0 and older = "[]" and nd = "nonce_fill ngx_ref ''n1'' 100"
      and now = 100 and exp = 100]
  show "fst (mem_consume ngx_ref shm_ref (one_login 100) 100 ''n1'' 100) = NGX_OK"
    by (simp add: one_login_fields nonce_fill_def)
  from use [OF logins_ok(2) [of 120], where front = "[]" and a = 1 and older = "[0]" and nd = "nonce_fill ngx_ref ''n2'' 110"
      and now = 110 and exp = 110]
  show "fst (mem_consume ngx_ref shm_ref (two_logins 120) 110 ''n2'' 110) = NGX_DECLINED"
    by (simp add: two_logins_fields) (simp add: nonce_fill_def)
qed

end
