(* ===== verification/Redis.thy ===== *)
theory Redis
  imports Gpg
begin

text \<open>
  The "redis" backend of \<open>ngx_http_pgp_auth_nonce.c\<close>: a small blocking client that connects, opens
  TLS when asked to, authenticates, and records the nonce with one SET.  What the network and
  the TLS library answer is an argument: each kind of call has a list of its results, a call
  takes the next one, and a list that ran out stands for a call that fails.  The bytes handed to
  the network are logged, each chunk with the information whether it went through TLS, and so are
  the bytes that arrive, each chunk with the number of bytes sent before it.
\<close>

section \<open>The network, as the client sees it\<close>

datatype poll_ret = Poll_Ready | Poll_Expired | Poll_Err bool

text \<open>Results of \<open>send\<close>/\<open>SSL_write\<close> and of \<open>recv\<close>/\<open>SSL_read\<close>; the wants exist for TLS only.\<close>

datatype write_ret = Wrote nat | Write_Wants | Write_Fails
datatype read_ret = Got bytes | Read_Wants | Read_Fails

record redis_net =
  polls :: "poll_ret list"
  writes :: "write_ret list"
  reads :: "read_ret list"
  wire :: "(bool \<times> bytes) list"
  replies :: "bytes list"
  heard :: "nat list"

definition sent :: "redis_net \<Rightarrow> bytes" where
  "sent net = concat (map snd (wire net))"

text \<open>\<open>ngx_http_pgp_nonce_wait\<close>: true for a positive result; interrupted polls are repeated.\<close>

fun wait_polls :: "poll_ret list \<Rightarrow> bool \<times> poll_ret list" where
  "wait_polls [] = (False, [])"
| "wait_polls (Poll_Err eintr # ps) = (if eintr then wait_polls ps else (False, ps))"
| "wait_polls (Poll_Expired # ps) = (False, ps)"
| "wait_polls (Poll_Ready # ps) = (True, ps)"

definition nonce_wait :: "redis_net \<Rightarrow> bool \<times> redis_net" where
  "nonce_wait net = (case wait_polls (polls net) of (ok, ps) \<Rightarrow> (ok, net\<lparr>polls := ps\<rparr>))"

definition take_write :: "redis_net \<Rightarrow> write_ret \<times> redis_net" where
  "take_write net = (case writes net of
       [] \<Rightarrow> (Write_Fails, net) | w # ws \<Rightarrow> (w, net\<lparr>writes := ws\<rparr>))"

definition take_read :: "redis_net \<Rightarrow> read_ret \<times> redis_net" where
  "take_read net = (case reads net of
       [] \<Rightarrow> (Read_Fails, net) | w # ws \<Rightarrow> (w, net\<lparr>reads := ws\<rparr>))"

text \<open>What the calls leave alone, and that each takes one result.\<close>

lemma nonce_waitD: "nonce_wait net = (ok, net') \<Longrightarrow>
    writes net' = writes net \<and> reads net' = reads net \<and> wire net' = wire net \<and> replies net' = replies net \<and> heard net' = heard net"
  by (auto simp: nonce_wait_def split: prod.splits)

lemma take_writeD: "take_write net = (w, net') \<Longrightarrow>
    reads net' = reads net \<and> wire net' = wire net \<and> replies net' = replies net \<and> heard net' = heard net \<and>
    (w \<noteq> Write_Fails \<longrightarrow> length (writes net') < length (writes net))"
  by (auto simp: take_write_def split: list.splits)

lemma take_readD: "take_read net = (r, net') \<Longrightarrow>
    wire net' = wire net \<and> replies net' = replies net \<and> heard net' = heard net \<and>
    (r \<noteq> Read_Fails \<longrightarrow> length (reads net') < length (reads net))"
  by (auto simp: take_read_def split: list.splits)

section \<open>ngx\_http\_pgp\_nonce\_redis\_roundtrip\<close>

text \<open>
  One round of the sending loop.  A plain socket is polled before each \<open>send\<close>; TLS polls only
  when the library asks for it and then tries again.
\<close>

definition write_step :: "bool \<Rightarrow> redis_net \<Rightarrow> write_ret \<times> redis_net" where
  "write_step ssl net =
     (if \<not> ssl then
        (case nonce_wait net of (ready, net) \<Rightarrow>
           if \<not> ready then (Write_Fails, net)
           else case take_write net of (w, net) \<Rightarrow> (if w = Write_Wants then Write_Fails else w, net))
      else
        (case take_write net of (w, net) \<Rightarrow>
           if w \<noteq> Write_Wants then (w, net)
           else case nonce_wait net of (ready, net) \<Rightarrow> (if ready then Write_Wants else Write_Fails, net)))"

lemma write_stepD: "write_step ssl net = (w, net') \<Longrightarrow>
    reads net' = reads net \<and> wire net' = wire net \<and> replies net' = replies net \<and> heard net' = heard net \<and>
    (w \<noteq> Write_Fails \<longrightarrow> length (writes net') < length (writes net))"
  by (auto simp: write_step_def split: prod.splits if_splits dest!: nonce_waitD take_writeD)

text \<open>The sending loop; nothing is written beyond the rest of the command.\<close>

function redis_send :: "bool \<Rightarrow> bytes \<Rightarrow> redis_net \<Rightarrow> bool \<times> redis_net" where
  "redis_send ssl cmd net =
     (if cmd = [] then (True, net)
      else case write_step ssl net of
        (Wrote n, net') \<Rightarrow>
          if n = 0 then (False, net')
          else redis_send ssl (drop n cmd) (net'\<lparr>wire := wire net' @ [(ssl, take n cmd)]\<rparr>)
      | (Write_Wants, net') \<Rightarrow> redis_send ssl cmd net'
      | (Write_Fails, net') \<Rightarrow> (False, net'))"
  by pat_completeness auto
termination
  by (relation "measure (\<lambda>(ssl, cmd, net). length (writes net))") (auto dest!: write_stepD [OF sym])

declare redis_send.simps [simp del]

text \<open>One round of the receiving loop, and the loop: one reply of at most \<open>replysz - 1\<close> bytes.\<close>

definition read_step :: "bool \<Rightarrow> redis_net \<Rightarrow> read_ret \<times> redis_net" where
  "read_step ssl net =
     (if \<not> ssl then
        (case nonce_wait net of (ready, net) \<Rightarrow>
           if \<not> ready then (Read_Fails, net)
           else case take_read net of (r, net) \<Rightarrow> (if r = Read_Wants then Read_Fails else r, net))
      else
        (case take_read net of (r, net) \<Rightarrow>
           if r \<noteq> Read_Wants then (r, net)
           else case nonce_wait net of (ready, net) \<Rightarrow> (if ready then Read_Wants else Read_Fails, net)))"

lemma read_stepD: "read_step ssl net = (r, net') \<Longrightarrow>
    wire net' = wire net \<and> replies net' = replies net \<and> heard net' = heard net \<and>
    (r \<noteq> Read_Fails \<longrightarrow> length (reads net') < length (reads net))"
  by (auto simp: read_step_def split: prod.splits if_splits dest!: nonce_waitD take_readD)

function redis_recv :: "bool \<Rightarrow> nat \<Rightarrow> redis_net \<Rightarrow> bytes option \<times> redis_net" where
  "redis_recv ssl replysz net =
     (case read_step ssl net of
        (Got s, net') \<Rightarrow>
          (let s = take (replysz - 1) s in
           if s = [] then (None, net') else (Some s, net'\<lparr>replies := replies net' @ [s], heard := heard net' @ [length (sent net')]\<rparr>))
      | (Read_Wants, net') \<Rightarrow> redis_recv ssl replysz net'
      | (Read_Fails, net') \<Rightarrow> (None, net'))"
  by pat_completeness auto
termination
  by (relation "measure (\<lambda>(ssl, sz, net). length (reads net))") (auto dest!: read_stepD [OF sym])

declare redis_recv.simps [simp del]

definition redis_roundtrip :: "bool \<Rightarrow> bytes \<Rightarrow> nat \<Rightarrow> redis_net \<Rightarrow> bytes option \<times> redis_net" where
  "redis_roundtrip ssl cmd replysz net =
     (case redis_send ssl cmd net of
        (ok, net) \<Rightarrow> if ok then redis_recv ssl replysz net else (None, net))"

section \<open>ngx\_http\_pgp\_nonce\_tls\<close>

text \<open>What a TLS session was set up to demand of the peer.\<close>

datatype tls_trust = Trust_File bytes | Trust_System | Trust_None
datatype tls_identity = Match_Host bytes | Match_Ip bytes | Match_None

record tls_session =
  ses_verify_peer :: bool
  ses_trust :: tls_trust
  ses_sni :: "bytes option"
  ses_identity :: tls_identity

datatype handshake_ret = HS_Done | HS_Wants | HS_Fails

record tls_env =
  ssl_ctx_new_ok :: bool
  load_verify_ok :: "bytes \<Rightarrow> bool"
  default_paths_ok :: bool
  ssl_new_ok :: bool
  ssl_set_fd_ok :: bool
  set1_host_ok :: "bytes \<Rightarrow> bool"
  set1_ip_ok :: "bytes \<Rightarrow> bool"
  handshake :: "tls_session \<Rightarrow> handshake_ret list"

fun tls_connect :: "handshake_ret list \<Rightarrow> redis_net \<Rightarrow> bool \<times> redis_net" where
  "tls_connect [] net = (False, net)"
| "tls_connect (HS_Done # hs) net = (True, net)"
| "tls_connect (HS_Fails # hs) net = (False, net)"
| "tls_connect (HS_Wants # hs) net =
     (case nonce_wait net of (ready, net) \<Rightarrow> if ready then tls_connect hs net else (False, net))"

definition nonce_tls :: "tls_env \<Rightarrow> verify_result \<Rightarrow> bytes \<Rightarrow> bool \<Rightarrow> bytes \<Rightarrow> bytes \<Rightarrow> redis_net
    \<Rightarrow> tls_session option \<times> verify_result \<times> redis_net" where
  "nonce_tls env vr host verify ca name net =
     (if \<not> ssl_ctx_new_ok env then (None, vr, net)
      else if verify \<and> ca \<noteq> [] \<and> length ca \<ge> 512 then (None, vr, net)
      else if verify \<and> ca \<noteq> [] \<and> \<not> load_verify_ok env (c_str ca) then
        (None, defer_diag vr NGX_LOG_ERR
           (''pgp_auth: redis TLS: cannot load CA '' @ [CHR 0x22] @ ca @ [CHR 0x22]), net)
      else if verify \<and> ca = [] \<and> \<not> default_paths_ok env then (None, vr, net)
      else if \<not> ssl_new_ok env then (None, vr, net)
      else if \<not> ssl_set_fd_ok env then (None, vr, net)
      else
        (let named = (name \<noteq> [] \<and> length name < 512);
             ses = \<lparr>ses_verify_peer = verify,
               ses_trust = (if verify then (if ca \<noteq> [] then Trust_File (c_str ca) else Trust_System) else Trust_None),
               ses_sni = (if named then Some (c_str name) else None),
               ses_identity = (if verify then (if named then Match_Host (c_str name) else Match_Ip host)
                               else Match_None)\<rparr>
         in if verify \<and> named \<and> \<not> set1_host_ok env (c_str name) then (None, vr, net)
            else if verify \<and> \<not> named \<and> \<not> set1_ip_ok env host then (None, vr, net)
            else case tls_connect (handshake env ses) net of
              (True, net) \<Rightarrow> (Some ses, vr, net)
            | (False, net) \<Rightarrow>
                (None, defer_diag vr NGX_LOG_ERR
                   (''pgp_auth: redis TLS handshake failed (verify='' @ (if verify then ''1'' else ''0'') @
                    '', cert must match '' @
                    (if name \<noteq> [] then ''the configured tls_name'' else ''the IP address'') @ '')''), net)))"

section \<open>ngx\_http\_pgp\_nonce\_redis\<close>

datatype nonce_storage = NONCE_NONE | NONCE_MEMORY | NONCE_REDIS

text \<open>
  \<open>ngx_http_pgp_nonce_conf_t\<close>; what its zone pointer refers to is shared state and an argument of
  the operations.
\<close>

record nonce_conf =
  nc_storage :: nonce_storage
  nc_addr :: bytes
  nc_password :: bytes
  nc_key_prefix :: bytes
  nc_tls :: bool
  nc_tls_verify :: bool
  nc_tls_ca :: bytes
  nc_tls_name :: bytes

text \<open>
  One entry of the list of addresses: \<open>socket\<close> fails, \<open>connect\<close> succeeds at once, is in progress
  (with what \<open>SO_ERROR\<close> will say), or is refused.
\<close>

datatype conn_attempt = Socket_Fails | Conn_Now | Conn_Progress bool | Conn_Refused

record redis_env =
  getaddrinfo :: "bytes \<Rightarrow> bytes \<Rightarrow> conn_attempt list option"
  tls_lib :: tls_env
  redis_io :: redis_net

fun redis_connect :: "conn_attempt list \<Rightarrow> redis_net \<Rightarrow> bool \<times> redis_net" where
  "redis_connect [] net = (False, net)"
| "redis_connect (Socket_Fails # as) net = redis_connect as net"
| "redis_connect (Conn_Now # as) net = (True, net)"
| "redis_connect (Conn_Progress so_ok # as) net =
     (case nonce_wait net of (ready, net) \<Rightarrow>
        if ready \<and> so_ok then (True, net) else redis_connect as net)"
| "redis_connect (Conn_Refused # as) net = redis_connect as net"

text \<open>\<open>strrchr (s, c)\<close>, as the parts before and after the last \<open>c\<close>.\<close>

definition strrchr_split :: "bytes \<Rightarrow> char \<Rightarrow> (bytes \<times> bytes) option" where
  "strrchr_split s c =
     (if c \<in> set s
      then Some (rev (drop 1 (dropWhile (\<lambda>x. x \<noteq> c) (rev s))), rev (takeWhile (\<lambda>x. x \<noteq> c) (rev s)))
      else None)"

definition redis_auth_cmd :: "ngx_lib \<Rightarrow> bytes \<Rightarrow> bytes" where
  "redis_auth_cmd ngx password =
     ''*2'' @ CRLF @ ''$4'' @ CRLF @ ''AUTH'' @ CRLF @
     ''$'' @ ngx_fmt_T ngx (int (length password)) @ CRLF @ password @ CRLF"

definition redis_set_cmd :: "ngx_lib \<Rightarrow> bytes \<Rightarrow> bytes \<Rightarrow> time_t \<Rightarrow> bytes" where
  "redis_set_cmd ngx key_prefix nonce ttl =
     (let ttlbuf = ngx_fmt_T ngx ttl in
      ''*6'' @ CRLF @ ''$3'' @ CRLF @ ''SET'' @ CRLF @
      ''$'' @ ngx_fmt_T ngx (int (length key_prefix + length nonce)) @ CRLF @ key_prefix @ nonce @ CRLF @
      ''$1'' @ CRLF @ ''1'' @ CRLF @ ''$2'' @ CRLF @ ''NX'' @ CRLF @ ''$2'' @ CRLF @ ''EX'' @ CRLF @
      ''$'' @ ngx_fmt_T ngx (int (length ttlbuf)) @ CRLF @ ttlbuf @ CRLF)"

text \<open>The reply to SET decides: \<open>+\<close> is first use, a nil is a replay, anything else an error.\<close>

definition redis_set_reply :: "verify_result \<Rightarrow> bytes option \<Rightarrow> ngx_rc \<times> verify_result" where
  "redis_set_reply vr reply = (case reply of
       None \<Rightarrow> (NGX_ERROR, vr)
     | Some r \<Rightarrow>
         if take 1 r = ''+'' then (NGX_OK, vr)
         else if take 1 r = ''$'' \<or> take 1 r = ''_'' then (NGX_DECLINED, vr)
         else if take 1 r = ''-'' then
           (NGX_ERROR, defer_diag vr NGX_LOG_ERR (''pgp_auth: redis error reply: '' @ c_str r))
         else (NGX_ERROR, vr))"

text \<open>The dialogue on a connected socket: AUTH if there is a password, then SET.\<close>

definition redis_dialogue :: "ngx_lib \<Rightarrow> verify_result \<Rightarrow> nonce_conf \<Rightarrow> bytes \<Rightarrow> time_t \<Rightarrow> bool \<Rightarrow> redis_net
    \<Rightarrow> ngx_rc \<times> verify_result \<times> redis_net" where
  "redis_dialogue ngx vr nc nonce ttl ssl net =
     (let (authed, net) =
        (if nc_password nc = [] then (True, net)
         else case redis_roundtrip ssl (snprintf 512 (redis_auth_cmd ngx (nc_password nc))) 128 net of
           (reply, net) \<Rightarrow> ((case reply of None \<Rightarrow> False | Some r \<Rightarrow> take 1 r = ''+''), net))
      in if \<not> authed then (NGX_ERROR, defer_diag vr NGX_LOG_ERR ''pgp_auth: redis AUTH failed'', net)
         else case redis_roundtrip ssl (snprintf 512 (redis_set_cmd ngx (nc_key_prefix nc) nonce ttl)) 128 net of
           (reply, net) \<Rightarrow> (case redis_set_reply vr reply of (rc, vr) \<Rightarrow> (rc, vr, net)))"

definition nonce_redis :: "ngx_lib \<Rightarrow> redis_env \<Rightarrow> time_t \<Rightarrow> verify_result \<Rightarrow> nonce_conf \<Rightarrow> bytes \<Rightarrow> time_t
    \<Rightarrow> ngx_rc \<times> verify_result \<times> redis_net" where
  "nonce_redis ngx env now vr nc nonce exp =
     (let ttl = exp - now; net = redis_io env in
      if ttl \<le> 0 then (NGX_DECLINED, vr, net)
      else if nc_addr nc = [] \<or> length (nc_addr nc) \<ge> 256 then (NGX_ERROR, vr, net)
      else case strrchr_split (c_str (nc_addr nc)) (CHR '':'') of
        None \<Rightarrow> (NGX_ERROR, vr, net)
      | Some (host, port) \<Rightarrow>
          (case getaddrinfo env host port of
             None \<Rightarrow>
               (NGX_ERROR, defer_diag vr NGX_LOG_ERR
                  (''pgp_auth: redis address '' @ [CHR 0x22] @ host @ [CHR 0x22] @
                   '' is not a numeric host:port (hostnames are not supported; use an IP)''), net)
           | Some ai \<Rightarrow>
               (case redis_connect ai net of
                  (False, net) \<Rightarrow> (NGX_ABORT, defer_diag vr NGX_LOG_ERR ''pgp_auth: redis connect failed'', net)
                | (True, net) \<Rightarrow>
                    if nc_tls nc then
                      (case nonce_tls (tls_lib env) vr host (nc_tls_verify nc) (nc_tls_ca nc) (nc_tls_name nc) net of
                         (None, vr, net) \<Rightarrow> (NGX_ERROR, vr, net)
                       | (Some ses, vr, net) \<Rightarrow> redis_dialogue ngx vr nc nonce ttl True net)
                    else redis_dialogue ngx vr nc nonce ttl False net)))"

section \<open>The wire protocol\<close>

text \<open>
  The request format of Redis, as a reference: a command is an array of byte strings, each with its
  length in front.  \<open>resp_decode\<close> is what the server reads, with the bytes that follow.
\<close>

definition resp_bulk :: "bytes \<Rightarrow> bytes" where
  "resp_bulk s = ''$'' @ fmt_nat (length s) @ CRLF @ s @ CRLF"

definition resp_encode :: "bytes list \<Rightarrow> bytes" where
  "resp_encode args = ''*'' @ fmt_nat (length args) @ CRLF @ concat (map resp_bulk args)"

definition resp_num :: "char \<Rightarrow> bytes \<Rightarrow> (nat \<times> bytes) option" where
  "resp_num c s =
     (let d = takeWhile is_digit (drop 1 s); t = dropWhile is_digit (drop 1 s) in
      if take 1 s \<noteq> [c] \<or> d = [] \<or> take 2 t \<noteq> CRLF then None else Some (the (ato_nat 0 d), drop 2 t))"

fun resp_args :: "nat \<Rightarrow> bytes \<Rightarrow> (bytes list \<times> bytes) option" where
  "resp_args 0 s = Some ([], s)"
| "resp_args (Suc k) s = (case resp_num (CHR ''$'') s of
       None \<Rightarrow> None
     | Some (n, r) \<Rightarrow>
         if take 2 (drop n r) \<noteq> CRLF then None
         else (case resp_args k (drop (n + 2) r) of
                 None \<Rightarrow> None | Some (args, t) \<Rightarrow> Some (take n r # args, t)))"

definition resp_decode :: "bytes \<Rightarrow> (bytes list \<times> bytes) option" where
  "resp_decode s = (case resp_num (CHR ''*'') s of None \<Rightarrow> None | Some (n, r) \<Rightarrow> resp_args n r)"

lemma CR_not_digit [simp]: "\<not> is_digit CR"
  by (simp add: is_digit_def less_eq_char_def)

lemma resp_num_fmt: "resp_num c (c # fmt_nat n @ CRLF @ t) = Some (n, t)"
proof -
  have dig: "\<forall>x \<in> set (fmt_nat n). is_digit x" using fmt_nat_digits by (simp add: list_all_iff)
  then have "takeWhile is_digit (fmt_nat n @ CRLF @ t) = fmt_nat n"
    "dropWhile is_digit (fmt_nat n @ CRLF @ t) = CRLF @ t"
    by (auto simp: takeWhile_append2 dropWhile_append2)
  then show ?thesis by (simp add: resp_num_def ato_fmt)
qed

lemma resp_args_bulks: "resp_args (length args) (concat (map resp_bulk args) @ t) = Some (args, t)"
proof (induction args)
  case (Cons a args)
  have "resp_num (CHR ''$'') (resp_bulk a @ u) = Some (length a, a @ CRLF @ u)" for u
    using resp_num_fmt [of "CHR ''$''" "length a" "a @ CRLF @ u"] by (simp add: resp_bulk_def)
  then show ?case using Cons by simp
qed simp

text \<open>A server reads back exactly the arguments, whatever bytes they hold.\<close>

lemma resp_roundtrip: "resp_decode (resp_encode args @ t) = Some (args, t)"
  using resp_num_fmt [of "CHR ''*''" "length args" "concat (map resp_bulk args) @ t"]
  by (simp add: resp_decode_def resp_encode_def resp_args_bulks)

lemma resp_num_extend: "resp_num c s = Some (n, r) \<Longrightarrow> resp_num c (s @ t) = Some (n, r @ t)"
proof -
  assume a: "resp_num c s = Some (n, r)"
  let ?u = "drop 1 s"
  from a have stop: "take 2 (dropWhile is_digit ?u) = CRLF" and s1: "take 1 s = [c]"
    and d: "takeWhile is_digit ?u \<noteq> []" "n = the (ato_nat 0 (takeWhile is_digit ?u))" "r = drop 2 (dropWhile is_digit ?u)"
    by (auto simp: resp_num_def Let_def split: if_splits)
  then obtain x0 v where ne: "s = x0 # v" by (cases s) auto
  from stop have "\<exists>x \<in> set ?u. \<not> is_digit x"
    by (metis dropWhile_eq_Nil_conv list.distinct(1) take_Nil)
  then obtain x where x: "x \<in> set ?u" "\<not> is_digit x" ..
  then have "takeWhile is_digit (?u @ t) = takeWhile is_digit ?u"
    "dropWhile is_digit (?u @ t) = dropWhile is_digit ?u @ t"
    by (auto intro: takeWhile_append1 dropWhile_append1)
  moreover have "2 \<le> length (dropWhile is_digit ?u)"
    using stop by (metis length_Cons length_take list.size(3) min.cobounded1 numeral_2_eq_2)
  ultimately show ?thesis using s1 d stop ne by (simp add: resp_num_def)
qed

lemma resp_args_extend: "resp_args k s = Some (args, r) \<Longrightarrow> resp_args k (s @ t) = Some (args, r @ t)"
proof (induction k arbitrary: s args r)
  case (Suc k)
  from Suc.prems obtain n u args' where u: "resp_num (CHR ''$'') s = Some (n, u)" "take 2 (drop n u) = CRLF"
      "resp_args k (drop (n + 2) u) = Some (args', r)" "args = take n u # args'"
    by (auto split: option.splits if_splits)
  then have len: "n + 2 \<le> length u"
    by (metis (no_types, lifting) One_nat_def Suc_1 add.commute le_diff_conv2 length_Cons length_drop
        length_take list.size(3) min.bounded_iff nat_le_linear order_refl take_all list.distinct(1) drop_all take_Nil)
  then show ?case
    using Suc.IH [OF u(3)] resp_num_extend [OF u(1), of t] u by simp
qed simp

lemma resp_num_shorter: "resp_num c s = Some (n, r) \<Longrightarrow> length r < length s"
  using length_dropWhile_le [of is_digit "drop 1 s"] by (cases s) (auto simp: resp_num_def Let_def split: if_splits)

lemma resp_args_shorter: "resp_args k s = Some (args, r) \<Longrightarrow> length r \<le> length s"
proof (induction k arbitrary: s args)
  case (Suc k)
  then obtain n u as where "resp_num (CHR ''$'') s = Some (n, u)" "resp_args k (drop (n + 2) u) = Some (as, r)"
    by (auto split: option.splits if_splits)
  then show ?case using Suc.IH resp_num_shorter by fastforce
qed simp

lemma resp_decode_shorter: "resp_decode s = Some (args, r) \<Longrightarrow> length r < length s"
  by (auto simp: resp_decode_def split: option.splits dest!: resp_num_shorter resp_args_shorter)

text \<open>A command that was cut off is never read as a command.\<close>

lemma resp_truncated:
  assumes "k < length (resp_encode args)"
  shows "resp_decode (take k (resp_encode args)) = None"
proof (rule ccontr)
  assume "resp_decode (take k (resp_encode args)) \<noteq> None"
  then obtain n r as t where "resp_num (CHR ''*'') (take k (resp_encode args)) = Some (n, r)"
      "resp_args n r = Some (as, t)"
    by (auto simp: resp_decode_def split: option.splits)
  then have "resp_decode (take k (resp_encode args) @ drop k (resp_encode args)) =
      Some (as, t @ drop k (resp_encode args))"
    by (simp only: resp_decode_def resp_num_extend resp_args_extend option.case prod.case)
  then show False using resp_roundtrip [of args "[]"] assms by simp
qed

lemma fmt_small: "fmt_nat 1 = ''1''" "fmt_nat 2 = ''2''" "fmt_nat 3 = ''3''" "fmt_nat 4 = ''4''" "fmt_nat 6 = ''6''"
  by (simp_all add: fmt_nat.simps char_of_def bit_0)

lemma length_lits: "length [a] = 1" "length [a, b] = 2" "length [a, b, c] = 3" "length [a, b, c, d] = 4"
    "length [a, b, c, d, e, f] = 6"
  by simp_all

context ngx_core_api
begin

lemma auth_cmd_resp: "redis_auth_cmd ngx pw = resp_encode [''AUTH'', pw]"
  by (simp only: redis_auth_cmd_def resp_encode_def resp_bulk_def fmt_decimal length_lits fmt_small list.map
      of_nat_0_le_iff nat_int) simp

lemma set_cmd_resp:
  "0 \<le> ttl \<Longrightarrow> redis_set_cmd ngx pre nonce ttl =
     resp_encode [''SET'', pre @ nonce, ''1'', ''NX'', ''EX'', ngx_fmt_T ngx ttl]"
  by (simp only: redis_set_cmd_def Let_def resp_encode_def resp_bulk_def fmt_decimal length_lits fmt_small
      list.map of_nat_0_le_iff nat_int length_append) simp

end

section \<open>What reaches the wire\<close>

text \<open>\<open>sends tls net s net'\<close>: between the two states exactly the bytes \<open>s\<close> were handed to the network.\<close>

definition sends :: "bool \<Rightarrow> redis_net \<Rightarrow> bytes \<Rightarrow> redis_net \<Rightarrow> bool" where
  "sends ssl net s net' \<longleftrightarrow> (\<exists>chunks. wire net' = wire net @ map (Pair ssl) chunks \<and> concat chunks = s)"

lemma sends_nil [intro]: "wire net' = wire net \<Longrightarrow> sends ssl net [] net'"
  unfolding sends_def by (rule exI [of _ "[]"]) simp

lemma sends_chunk:
  assumes "sends ssl net s net'" "wire net = wire net0 @ [(ssl, c)]"
  shows "sends ssl net0 (c @ s) net'"
proof -
  from assms(1) obtain chunks where "wire net' = wire net @ map (Pair ssl) chunks" "concat chunks = s"
    unfolding sends_def by blast
  with assms(2) show ?thesis unfolding sends_def by (intro exI [of _ "c # chunks"]) simp
qed

lemma sends_trans: "sends ssl a s b \<Longrightarrow> sends ssl b t c \<Longrightarrow> sends ssl a (s @ t) c"
  unfolding sends_def by (metis append.assoc concat_append map_append)

lemma sends_wire_cong: "wire a = wire b \<Longrightarrow> sends ssl a s c \<longleftrightarrow> sends ssl b s c"
  by (simp add: sends_def)

lemma sends_sent: "sends ssl net s net' \<Longrightarrow> sent net' = sent net @ s"
  by (auto simp: sends_def sent_def comp_def)

lemma sends_tls: "sends ssl net s net' \<Longrightarrow> wire net = [] \<Longrightarrow> (\<forall>c \<in> set (wire net'). fst c = ssl)"
  by (auto simp: sends_def)

lemma redis_send_sends:
  "redis_send ssl cmd net = (ok, net') \<Longrightarrow>
     replies net' = replies net \<and> heard net' = heard net \<and> (\<exists>s u. cmd = s @ u \<and> sends ssl net s net' \<and> (ok \<longrightarrow> u = []))"
proof (induction ssl cmd net arbitrary: ok net' rule: redis_send.induct)
  case (1 ssl cmd net)
  have stop: "\<exists>s u. cmd = s @ u \<and> sends ssl net s net' \<and> (ok \<longrightarrow> u = [])" if "wire net' = wire net" "\<not> ok \<or> cmd = []"
    using that by (intro exI [of _ "[]"] exI [of _ cmd]) auto
  obtain w n1 where st: "write_step ssl net = (w, n1)" by fastforce
  note fr = write_stepD [OF st]
  note eq = 1(3) [unfolded redis_send.simps [of ssl cmd net] st]
  consider (finished) "cmd = []" | (fail) "cmd \<noteq> []" "w = Write_Fails \<or> w = Wrote 0" | (wants) "cmd \<noteq> []" "w = Write_Wants"
    | (wrote) n where "cmd \<noteq> []" "w = Wrote n" "n \<noteq> 0"
    by (cases w) auto
  then show ?case
  proof cases
    case finished
    then show ?thesis using eq stop by simp
  next
    case fail
    then have "net' = n1" "\<not> ok" using eq by auto
    then show ?thesis using stop fr by simp
  next
    case wants
    then show ?thesis using 1(2) [OF wants(1) st [symmetric] wants(2)] eq fr sends_wire_cong [of n1 net] by simp
  next
    case wrote
    let ?n = "n1\<lparr>wire := wire n1 @ [(ssl, take n cmd)]\<rparr>"
    from 1(1) [OF wrote(1) st [symmetric] wrote(2,3)] eq wrote
    obtain s u where su: "drop n cmd = s @ u" "sends ssl ?n s net'" "ok \<longrightarrow> u = []"
      and r: "replies net' = replies n1" "heard net' = heard n1"
      by auto
    have "sends ssl net (take n cmd @ s) net'" using sends_chunk [OF su(2)] fr by simp
    moreover have "cmd = (take n cmd @ s) @ u" using su(1) by (metis append.assoc append_take_drop_id)
    ultimately show ?thesis using su(3) r fr
      by (intro conjI exI [of _ "take n cmd @ s"] exI [of _ u]) simp_all
  qed
qed

lemma redis_recv_reply:
  "redis_recv ssl sz net = (r, net') \<Longrightarrow>
     wire net' = wire net \<and> replies net' = replies net @ (case r of None \<Rightarrow> [] | Some s \<Rightarrow> [s]) \<and>
     heard net' = heard net @ (case r of None \<Rightarrow> [] | Some s \<Rightarrow> [length (sent net)]) \<and>
     (\<forall>s. r = Some s \<longrightarrow> s \<noteq> [] \<and> length s \<le> sz - 1)"
proof (induction ssl sz net arbitrary: r net' rule: redis_recv.induct)
  case (1 ssl sz net)
  obtain w n1 where st: "read_step ssl net = (w, n1)" by fastforce
  note fr = read_stepD [OF st]
  note eq = 1(2) [unfolded redis_recv.simps [of ssl sz net] st]
  show ?case
  proof (cases w)
    case Read_Wants
    then show ?thesis using 1(1) [OF st [symmetric] Read_Wants] eq fr by (auto simp: sent_def split: option.splits)
  qed (use eq fr in \<open>auto simp: Let_def sent_def split: if_splits\<close>)
qed

lemma roundtrip_sends:
  assumes "redis_roundtrip ssl cmd sz net = (r, net')"
  obtains s u where "cmd = s @ u" "sends ssl net s net'" "r \<noteq> None \<longrightarrow> u = []"
    "replies net' = replies net @ (case r of None \<Rightarrow> [] | Some s \<Rightarrow> [s])"
    "heard net' = heard net @ (case r of None \<Rightarrow> [] | Some _ \<Rightarrow> [length (sent net) + length s])"
    "\<forall>x. r = Some x \<longrightarrow> x \<noteq> []"
proof -
  obtain ok n1 where send: "redis_send ssl cmd net = (ok, n1)" by fastforce
  from redis_send_sends [OF send] obtain s u where su: "cmd = s @ u" "sends ssl net s n1" "ok \<longrightarrow> u = []"
    and rep: "replies n1 = replies net" "heard n1 = heard net" by blast
  show ?thesis
  proof (cases ok)
    case True
    then have "redis_recv ssl sz n1 = (r, net')" using assms send by (simp add: redis_roundtrip_def)
    from redis_recv_reply [OF this] show ?thesis
      using that [of s u] su True rep sends_sent [OF su(2)] by (simp add: sends_def split: option.splits)
  next
    case False
    then have "r = None" "net' = n1" using assms send by (simp_all add: redis_roundtrip_def)
    then show ?thesis using that [of s u] su rep by simp
  qed
qed

text \<open>
  What a run did to the network: \<open>s\<close> is what it sent, a part of the AUTH and SET commands in this
  order, and nothing of SET before AUTH was answered with \<open>+\<close>.  When the nonce was accepted, both
  were sent completely, each was followed by one reply that starts with \<open>+\<close>, and the reply to SET
  came after the last byte of SET.
\<close>

definition auth_bytes :: "ngx_lib \<Rightarrow> nonce_conf \<Rightarrow> bytes" where
  "auth_bytes ngx nc = (if nc_password nc = [] then [] else snprintf 512 (redis_auth_cmd ngx (nc_password nc)))"

definition set_bytes :: "ngx_lib \<Rightarrow> nonce_conf \<Rightarrow> bytes \<Rightarrow> time_t \<Rightarrow> bytes" where
  "set_bytes ngx nc nonce ttl = snprintf 512 (redis_set_cmd ngx (nc_key_prefix nc) nonce ttl)"

definition plus_answers :: "ngx_lib \<Rightarrow> nonce_conf \<Rightarrow> bytes \<Rightarrow> time_t \<Rightarrow> nat \<Rightarrow> bytes list \<Rightarrow> nat list \<Rightarrow> bool" where
  "plus_answers ngx nc nonce ttl n rs hs \<longleftrightarrow>
     (\<exists>b. take 1 b = ''+'' \<and>
       (if nc_password nc = [] then rs = [b] \<and> hs = [n + length (set_bytes ngx nc nonce ttl)]
        else \<exists>a. take 1 a = ''+'' \<and> rs = [a, b] \<and>
          hs = [n + length (auth_bytes ngx nc), n + length (auth_bytes ngx nc) + length (set_bytes ngx nc nonce ttl)]))"

definition dialogue_ok :: "ngx_lib \<Rightarrow> nonce_conf \<Rightarrow> bytes \<Rightarrow> time_t \<Rightarrow> ngx_rc \<Rightarrow> nat \<Rightarrow> bytes \<Rightarrow> bytes list \<Rightarrow> nat list \<Rightarrow> bool" where
  "dialogue_ok ngx nc nonce ttl rc n s rs hs \<longleftrightarrow>
     (\<exists>u. auth_bytes ngx nc @ set_bytes ngx nc nonce ttl = s @ u) \<and>
     (nc_password nc \<noteq> [] \<longrightarrow> length s > length (auth_bytes ngx nc) \<longrightarrow> rs \<noteq> [] \<and> take 1 (hd rs) = ''+'') \<and>
     (rc = NGX_OK \<longrightarrow> s = auth_bytes ngx nc @ set_bytes ngx nc nonce ttl \<and> plus_answers ngx nc nonce ttl n rs hs)"

lemma set_reply_ok: "redis_set_reply vr r = (NGX_OK, vr') \<Longrightarrow> \<exists>s. r = Some s \<and> take 1 s = ''+''"
  by (auto simp: redis_set_reply_def split: option.splits if_splits)

lemma dialogue_set:
  assumes "redis_roundtrip ssl (set_bytes ngx nc nonce ttl) 128 net = (r, net')" "redis_set_reply vr r = (rc, vr')"
  obtains s rs hs u where "sends ssl net s net'" "replies net' = replies net @ rs" "heard net' = heard net @ hs"
    "set_bytes ngx nc nonce ttl = s @ u"
    "rc = NGX_OK \<longrightarrow> u = [] \<and> (\<exists>b. take 1 b = ''+'' \<and> rs = [b] \<and> hs = [length (sent net) + length s])"
proof -
  from roundtrip_sends [OF assms(1)] obtain s u where su: "set_bytes ngx nc nonce ttl = s @ u" "sends ssl net s net'"
    "r \<noteq> None \<longrightarrow> u = []" "replies net' = replies net @ (case r of None \<Rightarrow> [] | Some s \<Rightarrow> [s])"
    "heard net' = heard net @ (case r of None \<Rightarrow> [] | Some _ \<Rightarrow> [length (sent net) + length s])" .
  have "rc = NGX_OK \<longrightarrow> (\<exists>t. r = Some t \<and> take 1 t = ''+'')"
    using set_reply_ok [of vr r vr'] assms(2) by blast
  then show ?thesis
    using that [OF su(2,4,5,1)] su(3) by (auto simp del: take_Suc)
qed

lemma dialogue_sends:
  assumes "redis_dialogue ngx vr nc nonce ttl ssl net = (rc, vr', net')"
  obtains s rs hs where "sends ssl net s net'" "replies net' = replies net @ rs" "heard net' = heard net @ hs"
    "dialogue_ok ngx nc nonce ttl rc (length (sent net)) s rs hs"
proof (cases "nc_password nc = []")
  case True
  then obtain r n1 where "redis_roundtrip ssl (set_bytes ngx nc nonce ttl) 128 net = (r, n1)"
      "redis_set_reply vr r = (rc, vr')" "n1 = net'"
    using assms by (auto simp: redis_dialogue_def set_bytes_def split: prod.splits)
  from dialogue_set [OF this(1,2)] this(3) obtain s rs hs u where s: "sends ssl net s net'" "replies net' = replies net @ rs"
    "heard net' = heard net @ hs" "set_bytes ngx nc nonce ttl = s @ u"
    "rc = NGX_OK \<longrightarrow> u = [] \<and> (\<exists>b. take 1 b = ''+'' \<and> rs = [b] \<and> hs = [length (sent net) + length s])" by metis
  show ?thesis using that [OF s(1-3)] s(4,5) True by (auto simp: dialogue_ok_def plus_answers_def auth_bytes_def)
next
  case pw: False
  obtain r1 n1 where a: "redis_roundtrip ssl (auth_bytes ngx nc) 128 net = (r1, n1)" by fastforce
  from roundtrip_sends [OF a] obtain s1 u1 where s1: "auth_bytes ngx nc = s1 @ u1" "sends ssl net s1 n1"
    "r1 \<noteq> None \<longrightarrow> u1 = []" "replies n1 = replies net @ (case r1 of None \<Rightarrow> [] | Some s \<Rightarrow> [s])"
    "heard n1 = heard net @ (case r1 of None \<Rightarrow> [] | Some _ \<Rightarrow> [length (sent net) + length s1])" .
  show ?thesis
  proof (cases "\<exists>t. r1 = Some t \<and> take 1 t = ''+''")
    case False
    then have "rc = NGX_ERROR" "net' = n1"
      using assms a pw by (auto simp: redis_dialogue_def auth_bytes_def split: option.splits)
    moreover have "length s1 \<le> length (auth_bytes ngx nc)" by (simp add: s1(1))
    ultimately show ?thesis using that [of s1] s1 by (simp add: dialogue_ok_def)
  next
    case True
    then obtain t where t: "r1 = Some t" "take 1 t = ''+''" by blast
    then obtain r n2 where b: "redis_roundtrip ssl (set_bytes ngx nc nonce ttl) 128 n1 = (r, n2)"
        "redis_set_reply vr r = (rc, vr')" "n2 = net'"
      using assms a pw by (auto simp: redis_dialogue_def auth_bytes_def set_bytes_def split: prod.splits)
    from dialogue_set [OF b(1,2)] obtain s2 rs hs u where s2: "sends ssl n1 s2 n2" "replies n2 = replies n1 @ rs"
      "heard n2 = heard n1 @ hs" "set_bytes ngx nc nonce ttl = s2 @ u"
      "rc = NGX_OK \<longrightarrow> u = [] \<and> (\<exists>b. take 1 b = ''+'' \<and> rs = [b] \<and> hs = [length (sent n1) + length s2])" .
    have u1: "u1 = []" using s1(3) t(1) by simp
    let ?hs = "(length (sent net) + length s1) # hs"
    have "replies net' = replies net @ t # rs" "heard net' = heard net @ ?hs"
      using s1(4,5) s2(2,3) t(1) b(3) by simp_all
    moreover have "dialogue_ok ngx nc nonce ttl rc (length (sent net)) (s1 @ s2) (t # rs) ?hs"
      using s1(1) u1 s2(4,5) t(2) pw sends_sent [OF s1(2)]
      by (auto simp: dialogue_ok_def plus_answers_def simp del: take_Suc)
    ultimately show ?thesis
      using that [OF sends_trans [OF s1(2) s2(1), unfolded b(3)]] by simp
  qed
qed

lemma tls_connect_wire: "tls_connect hs net = (ok, net') \<Longrightarrow> wire net' = wire net \<and> replies net' = replies net \<and> heard net' = heard net"
  by (induction hs net rule: tls_connect.induct) (auto split: prod.splits if_splits dest!: nonce_waitD)

lemma redis_connect_wire: "redis_connect as net = (ok, net') \<Longrightarrow> wire net' = wire net \<and> replies net' = replies net \<and> heard net' = heard net"
  by (induction as net rule: redis_connect.induct) (auto split: prod.splits if_splits dest!: nonce_waitD)

lemma nonce_tls_wire:
  "nonce_tls env vr host v ca nm net = (ses, vr', net') \<Longrightarrow> wire net' = wire net \<and> replies net' = replies net \<and> heard net' = heard net"
  by (auto simp: nonce_tls_def Let_def split: if_splits prod.splits bool.splits dest!: tls_connect_wire)

text \<open>The host the client dials and verifies.\<close>

definition redis_host :: "nonce_conf \<Rightarrow> bytes" where
  "redis_host nc = (case strrchr_split (c_str (nc_addr nc)) (CHR '':'') of Some (host, port) \<Rightarrow> host | None \<Rightarrow> [])"

lemma nonce_redis_cases:
  assumes "nonce_redis ngx env now vr nc nonce exp = (rc, vr', net')"
  obtains (silent) "rc \<noteq> NGX_OK" "wire net' = wire (redis_io env)" "replies net' = replies (redis_io env)"
      "heard net' = heard (redis_io env)"
  | (talk) net1 vr1 where "now < exp" "wire net1 = wire (redis_io env)" "replies net1 = replies (redis_io env)"
      "heard net1 = heard (redis_io env)"
      "redis_dialogue ngx vr1 nc nonce (exp - now) (nc_tls nc) net1 = (rc, vr', net')"
      "nc_tls nc \<longrightarrow> (\<exists>ses net0. nonce_tls (tls_lib env) vr (redis_host nc) (nc_tls_verify nc) (nc_tls_ca nc)
         (nc_tls_name nc) net0 = (Some ses, vr1, net1))"
proof (cases "now < exp \<and> nc_addr nc \<noteq> [] \<and> length (nc_addr nc) < 256 \<and>
    strrchr_split (c_str (nc_addr nc)) (CHR '':'') \<noteq> None")
  case False
  then have "rc \<noteq> NGX_OK \<and> net' = redis_io env"
    using assms by (cases "strrchr_split (c_str (nc_addr nc)) (CHR '':'')")
      (auto simp: nonce_redis_def Let_def split: if_splits)
  then show ?thesis by (intro silent) simp_all
next
  case True
  then obtain host port where hp: "strrchr_split (c_str (nc_addr nc)) (CHR '':'') = Some (host, port)" by auto
  have host: "redis_host nc = host" by (simp add: redis_host_def hp)
  note eq = assms [unfolded nonce_redis_def Let_def hp, simplified]
  show ?thesis
  proof (cases "getaddrinfo env host port")
    case None
    then show ?thesis using eq True by (intro silent) auto
  next
    case (Some ai)
    obtain ok n1 where c: "redis_connect ai (redis_io env) = (ok, n1)" by fastforce
    note wire = redis_connect_wire [OF c]
    show ?thesis
    proof (cases "ok \<and> nc_tls nc")
      case False
      then show ?thesis
        using eq True Some c wire by (cases ok) (auto intro: silent talk)
    next
      case tls: True
      obtain ses vr1 n2 where t: "nonce_tls (tls_lib env) vr host (nc_tls_verify nc) (nc_tls_ca nc)
          (nc_tls_name nc) n1 = (ses, vr1, n2)" by (metis prod_cases3)
      note eqs = eq True Some c tls t wire nonce_tls_wire [OF t] host
      show ?thesis
      proof (cases ses)
        case None
        then show ?thesis using eqs by (intro silent) auto
      next
        case (Some x)
        then show ?thesis using eqs by (intro talk [of n2 vr1]) auto
      qed
    qed
  qed
qed

lemma nonce_redis_sends:
  assumes "nonce_redis ngx env now vr nc nonce exp = (rc, vr', net')"
  obtains s rs hs where "sends (nc_tls nc) (redis_io env) s net'" "replies net' = replies (redis_io env) @ rs"
    "heard net' = heard (redis_io env) @ hs"
    "dialogue_ok ngx nc nonce (exp - now) rc (length (sent (redis_io env))) s rs hs" "rc = NGX_OK \<longrightarrow> now < exp"
  using assms
proof (cases rule: nonce_redis_cases)
  case silent
  then show ?thesis using that [of "[]" "[]" "[]"] by (auto simp: dialogue_ok_def)
next
  case (talk net1 vr1)
  from dialogue_sends [OF talk(5)] obtain s rs hs where s: "sends (nc_tls nc) net1 s net'" "replies net' = replies net1 @ rs"
    "heard net' = heard net1 @ hs" "dialogue_ok ngx nc nonce (exp - now) rc (length (sent net1)) s rs hs" .
  have "sends (nc_tls nc) (redis_io env) s net'" using s(1) talk(2) sends_wire_cong by blast
  then show ?thesis using that s talk by (simp add: sent_def)
qed

lemma redis_ok_run:
  assumes "nonce_redis ngx env now vr nc nonce exp = (NGX_OK, vr', net')"
    and "wire (redis_io env) = []" "replies (redis_io env) = []" "heard (redis_io env) = []"
  shows "now < exp" "sent net' = auth_bytes ngx nc @ set_bytes ngx nc nonce (exp - now)"
    "plus_answers ngx nc nonce (exp - now) 0 (replies net') (heard net')"
    "\<forall>c \<in> set (wire net'). fst c = nc_tls nc"
proof -
  from nonce_redis_sends [OF assms(1)] obtain s rs hs where s: "sends (nc_tls nc) (redis_io env) s net'"
    "replies net' = replies (redis_io env) @ rs" "heard net' = heard (redis_io env) @ hs"
    "dialogue_ok ngx nc nonce (exp - now) NGX_OK (length (sent (redis_io env))) s rs hs" "now < exp"
    by blast
  have none: "sent (redis_io env) = []" using assms(2) by (simp add: sent_def)
  show "now < exp" "sent net' = auth_bytes ngx nc @ set_bytes ngx nc nonce (exp - now)"
    "plus_answers ngx nc nonce (exp - now) 0 (replies net') (heard net')"
    using s sends_sent [OF s(1)] assms(3,4) none by (simp_all add: dialogue_ok_def)
  show "\<forall>c \<in> set (wire net'). fst c = nc_tls nc" using sends_tls [OF s(1) assms(2)] .
qed

text \<open>
  What the server makes of a command: its arguments if the command fits the buffer, and otherwise
  nothing, because the buffer then ends in the middle of it.
\<close>

lemma set_bytes_resp:
  assumes "ngx_core_api ngx" "0 \<le> ttl" "length (redis_set_cmd ngx (nc_key_prefix nc) nonce ttl) \<le> 512"
  shows "set_bytes ngx nc nonce ttl =
     resp_encode [''SET'', nc_key_prefix nc @ nonce, ''1'', ''NX'', ''EX'', ngx_fmt_T ngx ttl]"
  using assms(3) by (simp add: set_bytes_def snprintf_def ngx_core_api.set_cmd_resp [OF assms(1,2)])

lemma auth_bytes_resp:
  assumes "ngx_core_api ngx" "nc_password nc \<noteq> []" "length (redis_auth_cmd ngx (nc_password nc)) \<le> 512"
  shows "auth_bytes ngx nc = resp_encode [''AUTH'', nc_password nc]"
  using assms(2,3) by (simp add: auth_bytes_def snprintf_def ngx_core_api.auth_cmd_resp [OF assms(1)])

lemma set_bytes_decoded:
  assumes "ngx_core_api ngx" "0 \<le> ttl"
  shows "resp_decode (set_bytes ngx nc nonce ttl) =
     (if length (redis_set_cmd ngx (nc_key_prefix nc) nonce ttl) \<le> 512
      then Some ([''SET'', nc_key_prefix nc @ nonce, ''1'', ''NX'', ''EX'', ngx_fmt_T ngx ttl], []) else None)"
  using resp_roundtrip [of _ "[]"] resp_truncated
  by (simp add: set_bytes_def snprintf_def ngx_core_api.set_cmd_resp [OF assms])

lemma auth_bytes_decoded:
  assumes "ngx_core_api ngx" "nc_password nc \<noteq> []"
  shows "resp_decode (auth_bytes ngx nc) =
     (if length (redis_auth_cmd ngx (nc_password nc)) \<le> 512 then Some ([''AUTH'', nc_password nc], []) else None)"
  using resp_roundtrip [of _ "[]"] resp_truncated assms(2)
  by (simp add: auth_bytes_def snprintf_def ngx_core_api.auth_cmd_resp [OF assms(1)])

text \<open>The commands fit their buffer for keys and passwords of reasonable length.\<close>

lemma set_cmd_fits:
  assumes "ngx_core_api ngx" "0 \<le> ttl" "ttl \<le> time_max"
  shows "length pre + length nonce \<le> 400 \<Longrightarrow> length (redis_set_cmd ngx pre nonce ttl) \<le> 512"
proof -
  assume len: "length pre + length nonce \<le> 400"
  have ttl: "length (ngx_fmt_T ngx ttl) \<le> 19"
    using assms(2,3) fmt_nat_len [of "nat ttl" 19]
    by (simp add: ngx_core_api.fmt_decimal [OF assms(1,2)] time_max_def)
  then have "length (fmt_nat (length (ngx_fmt_T ngx ttl))) \<le> 2"
    "length (fmt_nat (length pre + length nonce)) \<le> 3"
    using len by (auto intro!: fmt_nat_len)
  then show ?thesis
    using ttl len ngx_core_api.fmt_decimal [OF assms(1), of "int (length pre + length nonce)"]
      ngx_core_api.fmt_decimal [OF assms(1), of "int (length (ngx_fmt_T ngx ttl))"]
    by (simp only: redis_set_cmd_def Let_def length_append list.size nat_int of_nat_0_le_iff)
qed

lemma auth_cmd_fits:
  assumes "ngx_core_api ngx"
  shows "length pw \<le> 256 \<Longrightarrow> length (redis_auth_cmd ngx pw) \<le> 512"
proof -
  assume len: "length pw \<le> 256"
  then have "length (fmt_nat (length pw)) \<le> 3" by (auto intro!: fmt_nat_len)
  then show ?thesis
    using len ngx_core_api.fmt_decimal [OF assms, of "int (length pw)"] by (simp add: redis_auth_cmd_def)
qed

section \<open>Properties\<close>

text \<open>
  A run against a server that answers OK to AUTH and SET over TLS, for concrete instances.
\<close>

definition sample_net :: "bytes list \<Rightarrow> redis_net" where
  "sample_net rs = \<lparr>polls = [Poll_Err True, Poll_Ready], writes = [Wrote 10, Write_Wants, Wrote 512, Wrote 512],
     reads = map Got rs, wire = [], replies = [], heard = []\<rparr>"

definition sample_redis :: "bytes list \<Rightarrow> redis_env" where
  "sample_redis rs = \<lparr>getaddrinfo = (\<lambda>h p. Some [Conn_Refused, Conn_Now]),
     tls_lib = \<lparr>ssl_ctx_new_ok = True, load_verify_ok = (\<lambda>f. True), default_paths_ok = True, ssl_new_ok = True,
       ssl_set_fd_ok = True, set1_host_ok = (\<lambda>n. True), set1_ip_ok = (\<lambda>n. True), handshake = (\<lambda>ses. [HS_Done])\<rparr>,
     redis_io = sample_net rs\<rparr>"

definition sample_nc :: nonce_conf where
  "sample_nc = \<lparr>nc_storage = NONCE_REDIS, nc_addr = ''10.0.0.5:6379'', nc_password = ''s3cret'',
     nc_key_prefix = ''pgp:'', nc_tls = True, nc_tls_verify = True, nc_tls_ca = [], nc_tls_name = ''redis.internal''\<rparr>"

definition sample_vr :: verify_result where
  "sample_vr = \<lparr>valid = True, fpr = [], plaintext = [], diag_level = 0, diag = [], chal_done = False,
     chal_rc = NGX_ERROR, chal_reason = None\<rparr>"

definition sample_redis_run :: "bytes list \<Rightarrow> ngx_rc \<times> verify_result \<times> redis_net" where
  "sample_redis_run rs = nonce_redis ngx_ref (sample_redis rs) 100 sample_vr sample_nc ''n1'' 160"

lemma sample_run_dialogue:
  "sample_redis_run rs = redis_dialogue ngx_ref sample_vr sample_nc ''n1'' 60 True (sample_net rs)"
proof -
  have "strrchr_split (c_str (nc_addr sample_nc)) (CHR '':'') = Some (''10.0.0.5'', ''6379'')"
    by (simp add: strrchr_split_def c_str_def sample_nc_def)
  then show ?thesis
    by (simp add: sample_redis_run_def nonce_redis_def nonce_tls_def sample_redis_def Let_def)
      (simp add: sample_nc_def)
qed

lemmas redis_eval = redis_roundtrip_def sent_def sample_net_def redis_send.simps redis_recv.simps
  write_step_def read_step_def nonce_wait_def take_write_def take_read_def redis_set_reply_def Let_def

lemma sample_lens:
  "length (auth_bytes ngx_ref sample_nc) = 26" "length (set_bytes ngx_ref sample_nc ''n1'' 60) = 56"
  by (simp_all add: auth_bytes_def set_bytes_def redis_auth_cmd_def redis_set_cmd_def sample_nc_def snprintf_def
      ngx_ref_def fmt_nat.simps Let_def)

text \<open>The first exchange of the sample run, and the second one.\<close>

lemma sample_exchange:
  assumes "10 < length cmd" "length cmd \<le> 512"
  shows "redis_roundtrip True cmd 128 (sample_net (r # rs)) =
     ((if take 127 r = [] then None else Some (take 127 r)),
      (sample_net (r # rs))\<lparr>polls := [], writes := [Wrote 512], reads := map Got rs,
        wire := [(True, take 10 cmd), (True, drop 10 cmd)], replies := (if take 127 r = [] then [] else [take 127 r]),
        heard := (if take 127 r = [] then [] else [length cmd])\<rparr>)"
  using assms by (auto simp: redis_eval)

lemma sample_exchange2:
  assumes "0 < length cmd" "length cmd \<le> 512"
  shows "redis_roundtrip True cmd 128
      \<lparr>polls = [], writes = [Wrote 512], reads = map Got (r # rs), wire = w, replies = p, heard = h\<rparr> =
     ((if take 127 r = [] then None else Some (take 127 r)),
      \<lparr>polls = [], writes = [], reads = map Got rs, wire = w @ [(True, cmd)],
        replies = p @ (if take 127 r = [] then [] else [take 127 r]),
        heard = h @ (if take 127 r = [] then [] else [length (concat (map snd w)) + length cmd])\<rparr>)"
  using assms by (auto simp: redis_eval)

definition sample_net_after :: "bytes \<Rightarrow> bytes option \<Rightarrow> redis_net" where
  "sample_net_after r1 r2 = \<lparr>polls = [], writes = (if r2 = None then [Wrote 512] else []),
     reads = (if r2 = None then [Got ''+OK''] else []),
     wire = [(True, take 10 (auth_bytes ngx_ref sample_nc)), (True, drop 10 (auth_bytes ngx_ref sample_nc))] @
       (if r2 = None then [] else [(True, set_bytes ngx_ref sample_nc ''n1'' 60)]),
     replies = r1 # (case r2 of None \<Rightarrow> [] | Some r \<Rightarrow> [r]),
     heard = 26 # (case r2 of None \<Rightarrow> [] | Some r \<Rightarrow> [82])\<rparr>"

lemma sample_run:
  "sample_redis_run [''+OK'', ''+OK''] = (NGX_OK, sample_vr, sample_net_after ''+OK'' (Some ''+OK''))"
  "sample_redis_run [''+OK'', ''$-1''] = (NGX_DECLINED, sample_vr, sample_net_after ''+OK'' (Some ''$-1''))"
  "sample_redis_run [''-ERR'', ''+OK''] =
     (NGX_ERROR, defer_diag sample_vr NGX_LOG_ERR ''pgp_auth: redis AUTH failed'', sample_net_after ''-ERR'' None)"
proof -
  have pw: "nc_password sample_nc \<noteq> []" by (simp add: sample_nc_def)
  have a: "snprintf 512 (redis_auth_cmd ngx_ref (nc_password sample_nc)) = auth_bytes ngx_ref sample_nc"
    using pw by (simp add: auth_bytes_def)
  note first = sample_exchange [where cmd = "auth_bytes ngx_ref sample_nc", unfolded sample_lens]
  note second = sample_exchange2 [where cmd = "set_bytes ngx_ref sample_nc ''n1'' 60" and rs = "[]", unfolded sample_lens]
  note defs = sample_run_dialogue redis_dialogue_def a set_bytes_def [symmetric] redis_set_reply_def
    sample_net_after_def sample_net_def
  show "sample_redis_run [''+OK'', ''+OK''] = (NGX_OK, sample_vr, sample_net_after ''+OK'' (Some ''+OK''))"
    "sample_redis_run [''+OK'', ''$-1''] = (NGX_DECLINED, sample_vr, sample_net_after ''+OK'' (Some ''$-1''))"
    "sample_redis_run [''-ERR'', ''+OK''] =
       (NGX_ERROR, defer_diag sample_vr NGX_LOG_ERR ''pgp_auth: redis AUTH failed'', sample_net_after ''-ERR'' None)"
    using pw first [of "''+OK''" "[''+OK'']"] first [of "''+OK''" "[''$-1'']"] first [of "''-ERR''" "[''+OK'']"]
      second [where r = "''+OK''"] second [where r = "''$-1''"] by (simp_all add: defs sample_lens)
qed

lemma sample_run_ok: "fst (sample_redis_run [''+OK'', ''+OK'']) = NGX_OK"
  by (simp add: sample_run)

lemma sample_run_lines:
  assumes "take 1 r1 = ''+''" "length r1 \<le> 127" "r2 \<noteq> []" "length r2 \<le> 127"
  shows "sample_redis_run [r1, r2] =
     (case redis_set_reply sample_vr (Some r2) of (rc, vr) \<Rightarrow> (rc, vr, sample_net_after r1 (Some r2)))"
proof -
  have pw: "nc_password sample_nc \<noteq> []" by (simp add: sample_nc_def)
  then have a: "snprintf 512 (redis_auth_cmd ngx_ref (nc_password sample_nc)) = auth_bytes ngx_ref sample_nc"
    by (simp add: auth_bytes_def)
  have "r1 \<noteq> []" using assms(1) by auto
  with pw assms show ?thesis
    using sample_exchange [where cmd = "auth_bytes ngx_ref sample_nc" and r = r1 and rs = "[r2]"]
      sample_exchange2 [where cmd = "set_bytes ngx_ref sample_nc ''n1'' 60" and r = r2 and rs = "[]"]
    by (simp add: sample_run_dialogue redis_dialogue_def a set_bytes_def [symmetric] sample_lens
        sample_net_after_def sample_net_def)
qed

text \<open>
  C23: on a fresh connection the Redis backend accepts a nonce only if its challenge is still alive
  and the whole dialogue took place: what was sent is the AUTH command (when a password is configured)
  followed by the SET command, each as far as its 512-byte buffer holds it; each of these commands got
  its own reply and both replies start with +; the reply to AUTH came when exactly AUTH had been
  sent, the reply to SET after the last byte of SET; and with TLS enabled every byte went through TLS.
\<close>

theorem redis_accepts_only_after_set:
  assumes "nonce_redis ngx env now vr nc nonce exp = (NGX_OK, vr', net')"
    and "wire (redis_io env) = []" "replies (redis_io env) = []" "heard (redis_io env) = []"
  defines "auth \<equiv> if nc_password nc = [] then [] else take 512 (redis_auth_cmd ngx (nc_password nc))"
    and "set_cmd \<equiv> take 512 (redis_set_cmd ngx (nc_key_prefix nc) nonce (exp - now))"
  shows "now < exp \<and> sent net' = auth @ set_cmd \<and>
     (\<exists>a b. take 1 a = ''+'' \<and> take 1 b = ''+'' \<and>
        replies net' = (if nc_password nc = [] then [b] else [a, b]) \<and>
        heard net' = (if nc_password nc = [] then [length set_cmd] else [length auth, length auth + length set_cmd])) \<and>
     (\<forall>c \<in> set (wire net'). fst c = nc_tls nc)"
proof -
  have "auth = auth_bytes ngx nc" "set_cmd = set_bytes ngx nc nonce (exp - now)"
    by (simp_all add: auth_def set_cmd_def auth_bytes_def set_bytes_def snprintf_def)
  then show ?thesis
    using redis_ok_run [OF assms(1-4)] by (auto simp: plus_answers_def simp del: take_Suc split: if_splits)
qed

theorem redis_accepts_only_after_set_witness:
  "let net' = snd (snd (sample_redis_run [''+OK'', ''+OK''])) in
   sent net' = take 512 (redis_auth_cmd ngx_ref ''s3cret'') @ take 512 (redis_set_cmd ngx_ref ''pgp:'' ''n1'' 60) \<and>
   length (replies net') = 2 \<and> length (sent net') = last (heard net') \<and> list_all fst (wire net')"
proof -
  let ?r = "sample_redis_run [''+OK'', ''+OK'']"
  have "?r = (NGX_OK, fst (snd ?r), snd (snd ?r))" using sample_run_ok by (metis surjective_pairing3)
  from redis_accepts_only_after_set [OF this [unfolded sample_redis_run_def]]
  show ?thesis
    by (auto simp: sample_redis_def sample_net_def sample_nc_def Let_def sample_redis_run_def list_all_iff)
qed

text \<open>
  C24: whatever the outcome, what was sent is a part of AUTH followed by SET, and not one byte of SET
  leaves before the server answered AUTH with a reply that starts with +.
\<close>

theorem redis_auth_before_set:
  assumes "nonce_redis ngx env now vr nc nonce exp = (rc, vr', net')"
    and "wire (redis_io env) = []" "replies (redis_io env) = []"
  shows "(\<exists>u. auth_bytes ngx nc @ set_bytes ngx nc nonce (exp - now) = sent net' @ u) \<and>
     (nc_password nc \<noteq> [] \<longrightarrow> length (sent net') > length (auth_bytes ngx nc) \<longrightarrow>
        replies net' \<noteq> [] \<and> take 1 (hd (replies net')) = ''+'')"
proof -
  from nonce_redis_sends [OF assms(1)] obtain s rs hs where s: "sends (nc_tls nc) (redis_io env) s net'"
    "replies net' = replies (redis_io env) @ rs" "heard net' = heard (redis_io env) @ hs"
    "dialogue_ok ngx nc nonce (exp - now) rc (length (sent (redis_io env))) s rs hs" .
  then show ?thesis
    using sends_sent [OF s(1)] assms(2,3) by (simp add: dialogue_ok_def sent_def)
qed

lemma sample_run_noauth:
  "sent (snd (snd (sample_redis_run [''-ERR'', ''+OK'']))) = auth_bytes ngx_ref sample_nc"
  by (simp add: sample_run sent_def sample_net_after_def)

theorem redis_auth_before_set_witness:
  "let net' = snd (snd (sample_redis_run [''-ERR'', ''+OK''])) in
   sent net' = auth_bytes ngx_ref sample_nc \<and>
   (\<exists>u. auth_bytes ngx_ref sample_nc @ set_bytes ngx_ref sample_nc ''n1'' 60 = sent net' @ u)"
proof -
  let ?r = "sample_redis_run [''-ERR'', ''+OK'']"
  from redis_auth_before_set [OF surjective_pairing3 [of ?r, unfolded sample_redis_run_def]]
  show ?thesis
    using sample_run_noauth by (simp add: sample_redis_def sample_net_def Let_def sample_redis_run_def)
qed

text \<open>
  C25: with TLS enabled nothing is sent unless a handshake succeeded first, in a session that, when
  verification is on, demands a certificate chain and the identity of the configured name, or of the
  dialled IP address if no (usable) name is configured.
\<close>

theorem redis_tls_identity:
  assumes "nonce_redis ngx env now vr nc nonce exp = (rc, vr', net')"
    and "wire (redis_io env) = []" "nc_tls nc" "wire net' \<noteq> []"
  shows "\<exists>ses net0. fst (tls_connect (handshake (tls_lib env) ses) net0) \<and>
     (nc_tls_verify nc \<longrightarrow> ses_verify_peer ses \<and> ses_trust ses \<noteq> Trust_None \<and>
       ses_identity ses = (if nc_tls_name nc \<noteq> [] \<and> length (nc_tls_name nc) < 512
         then Match_Host (c_str (nc_tls_name nc)) else Match_Ip (redis_host nc)))"
  using assms(1)
proof (cases rule: nonce_redis_cases)
  case silent
  with assms(2,4) show ?thesis by simp
next
  case (talk net1 vr1)
  with assms(3) obtain ses net0 where "nonce_tls (tls_lib env) vr (redis_host nc) (nc_tls_verify nc)
      (nc_tls_ca nc) (nc_tls_name nc) net0 = (Some ses, vr1, net1)" by blast
  then show ?thesis
    by (intro exI [of _ ses] exI [of _ net0])
      (auto simp: nonce_tls_def Let_def split: if_splits prod.splits bool.splits)
qed

theorem redis_tls_identity_witness:
  "\<exists>ses net0. fst (tls_connect (handshake (tls_lib (sample_redis [''+OK'', ''+OK''])) ses) net0) \<and>
     ses_verify_peer ses \<and> ses_identity ses = Match_Host ''redis.internal''"
proof -
  let ?r = "sample_redis_run [''-ERR'', ''+OK'']"
  have "wire (snd (snd ?r)) \<noteq> []"
    by (simp add: sample_run sample_net_after_def)
  from redis_tls_identity [OF surjective_pairing3 [of ?r, unfolded sample_redis_run_def] _ _
      this [unfolded sample_redis_run_def]]
  show ?thesis by (auto simp: sample_redis_def sample_net_def sample_nc_def c_str_def)
qed

text \<open>
  C26: no byte of a nonce, key prefix or password can add an argument or a command.  A server that reads the
  bytes of the SET command finds exactly the six intended arguments, with the key prefix followed by
  the nonce as the key, if the command fits the 512-byte buffer, and no command at all otherwise (the
  buffer then ends in the middle of one); likewise for AUTH and its password.  SET fits when prefix
  and nonce have at most 400 bytes together, AUTH when the password has at most 256 (the bound of
  the configuration check); the length of the prefix is not checked anywhere.
\<close>

theorem redis_set_no_injection:
  assumes "ngx_core_api ngx" "0 \<le> ttl" "ttl \<le> time_max" "nc_password nc \<noteq> []"
  shows "resp_decode (set_bytes ngx nc nonce ttl) =
     (if length (redis_set_cmd ngx (nc_key_prefix nc) nonce ttl) \<le> 512
      then Some ([''SET'', nc_key_prefix nc @ nonce, ''1'', ''NX'', ''EX'', ngx_fmt_T ngx ttl], []) else None) \<and>
   resp_decode (auth_bytes ngx nc) =
     (if length (redis_auth_cmd ngx (nc_password nc)) \<le> 512 then Some ([''AUTH'', nc_password nc], []) else None) \<and>
   (length (nc_key_prefix nc) + length nonce \<le> 400 \<longrightarrow>
      length (redis_set_cmd ngx (nc_key_prefix nc) nonce ttl) \<le> 512) \<and>
   (length (nc_key_prefix nc) \<ge> 512 \<longrightarrow> length (redis_set_cmd ngx (nc_key_prefix nc) nonce ttl) > 512) \<and>
   (length (nc_password nc) \<le> 256 \<longrightarrow> length (redis_auth_cmd ngx (nc_password nc)) \<le> 512)"
  using set_bytes_decoded [OF assms(1,2)] auth_bytes_decoded [OF assms(1,4)] set_cmd_fits [OF assms(1-3)]
    auth_cmd_fits [OF assms(1)] by (simp add: redis_set_cmd_def Let_def)

definition sample_long_nc :: nonce_conf where
  "sample_long_nc = sample_nc\<lparr>nc_key_prefix := replicate 600 (CHR ''p'')\<rparr>"

theorem redis_set_no_injection_witness:
  "resp_decode (set_bytes ngx_ref sample_nc (''a'' @ CRLF @ ''DEL'' @ CRLF) 60) =
     Some ([''SET'', ''pgp:a'' @ CRLF @ ''DEL'' @ CRLF, ''1'', ''NX'', ''EX'', ngx_fmt_T ngx_ref 60], []) \<and>
   resp_decode (auth_bytes ngx_ref sample_nc) = Some ([''AUTH'', ''s3cret''], []) \<and>
   resp_decode (set_bytes ngx_ref sample_long_nc ''n1'' 60) = None"
  using redis_set_no_injection [OF ref_core.ngx_core_api_axioms, of 60 sample_nc "''a'' @ CRLF @ ''DEL'' @ CRLF"]
    redis_set_no_injection [OF ref_core.ngx_core_api_axioms, of 60 sample_long_nc "''n1''"]
  by (simp add: sample_nc_def sample_long_nc_def time_max_def)

end
