(* ===== verification/Nonce_Store.thy ===== *)
theory Nonce_Store
  imports Nonce_Memory Redis
begin

text \<open>
  The front of \<open>ngx_http_pgp_auth_nonce.c\<close>: setting up the shared zone, and
  \<open>ngx_http_pgp_nonce_check_and_set\<close>, which combines the two backends.  The properties are about
  the combination: it fails closed, the per-node zone can only refuse, and nodes that share a
  Redis server share its verdicts.
\<close>

section \<open>Setting up the zone\<close>

text \<open>
  \<open>ngx_http_pgp_nonce_init_zone\<close>: the context of the previous cycle on a reload, the structure
  that the segment already holds, or a new one; \<open>sh_size\<close> is the size of the header struct.
\<close>

definition nonce_init_zone :: "'p ngx_shm \<Rightarrow> nat \<Rightarrow> 'p nonce_zone option \<Rightarrow> 'p nonce_zone option \<Rightarrow> 'p
    \<Rightarrow> ngx_rc \<times> 'p nonce_zone option" where
  "nonce_init_zone shm sh_size octx existing shpool =
     (case octx of
        Some z \<Rightarrow> (NGX_OK, Some z)
      | None \<Rightarrow> (case existing of
          Some z \<Rightarrow> (NGX_OK, Some z)
        | None \<Rightarrow> (case slab_alloc shm shpool sh_size of
            None \<Rightarrow> (NGX_ERROR, None)
          | Some (a, p) \<Rightarrow> (NGX_OK, Some (empty_zone p)))))"

text \<open>
  \<open>ngx_http_pgp_nonce_add_zone\<close>: \<open>added\<close> is what \<open>ngx_shared_memory_add\<close> returned (\<open>None\<close> for NULL,
  else whether the zone already has a context); the result says whether there is a zone, and
  whether its init handler and context were set now.
\<close>

definition nonce_add_zone :: "bool option \<Rightarrow> bool \<Rightarrow> bool \<times> bool" where
  "nonce_add_zone added pcalloc_ok =
     (case added of
        None \<Rightarrow> (False, False)
      | Some has_data \<Rightarrow>
          if has_data then (True, False)
          else if \<not> pcalloc_ok then (False, False)
          else (True, True))"

section \<open>ngx\_http\_pgp\_nonce\_check\_and\_set\<close>

definition nonce_check_and_set :: "ngx_lib \<Rightarrow> 'p ngx_shm \<Rightarrow> redis_env \<Rightarrow> time_t \<Rightarrow> verify_result \<Rightarrow> nonce_conf
    \<Rightarrow> 'p nonce_zone option \<Rightarrow> bytes \<Rightarrow> time_t
    \<Rightarrow> ngx_rc \<times> verify_result \<times> 'p nonce_zone option \<times> redis_net" where
  "nonce_check_and_set ngx shm env now vr nc zone nonce exp =
     (case nc_storage nc of
        NONCE_MEMORY \<Rightarrow>
          (case nonce_memory ngx shm now vr zone nonce exp of
             (rc, vr, zone) \<Rightarrow> (rc, vr, zone, redis_io env))
      | NONCE_REDIS \<Rightarrow>
          (let (local_rc, vr, zone) =
             (if zone \<noteq> None then nonce_memory ngx shm now vr zone nonce exp else (NGX_OK, vr, zone))
           in if local_rc = NGX_DECLINED then (NGX_DECLINED, vr, zone, redis_io env)
              else case nonce_redis ngx env now vr nc nonce exp of
                (redis_rc, vr, net) \<Rightarrow>
                  if redis_rc = NGX_OK \<or> redis_rc = NGX_DECLINED then (redis_rc, vr, zone, net)
                  else (NGX_ERROR, vr, zone, net))
      | NONCE_NONE \<Rightarrow> (NGX_OK, vr, zone, redis_io env))"

section \<open>The server\<close>

text \<open>The commands a server finds in the bytes of a connection; the fuel is the number of bytes.\<close>

fun resp_stream :: "nat \<Rightarrow> bytes \<Rightarrow> bytes list list" where
  "resp_stream 0 s = []"
| "resp_stream (Suc k) s = (case resp_decode s of
     None \<Rightarrow> [] | Some (args, r) \<Rightarrow> args # resp_stream k r)"

definition resp_commands :: "bytes \<Rightarrow> bytes list list" where
  "resp_commands s = resp_stream (length s) s"

text \<open>An answer to AUTH or to SET with NX and EX: OK, a nil of either protocol version, or an error line.\<close>

definition redis_answer :: "bytes \<Rightarrow> bool" where
  "redis_answer a \<longleftrightarrow> a = ''+OK'' @ CRLF \<or> a = ''$-1'' @ CRLF \<or> a = ''_'' @ CRLF \<or> take 1 a = ''-''"

text \<open>
  The documented behaviour of a server at time \<open>now\<close> of its clock, from the keys \<open>S\<close> to the keys \<open>S'\<close>.
  Keys that have not expired are kept.  The server may refuse a connection with an error; otherwise it
  answers the commands of the connection in their order, and what the client received so far, in chunks of
  any size, is a part of the answers to the commands it had sent by then: answers and parts of them may be lost.  An
  OK to SET with NX and EX means that the key was not set (or had expired) and is now set for the given time.
\<close>

definition redis_serves :: "ngx_lib \<Rightarrow> (bytes \<times> time_t) set \<Rightarrow> time_t \<Rightarrow> redis_net \<Rightarrow> (bytes \<times> time_t) set \<Rightarrow> bool" where
  "redis_serves ngx S now net S' \<longleftrightarrow>
     (\<forall>k e. (k, e) \<in> S \<longrightarrow> now < e \<longrightarrow> (k, e) \<in> S') \<and>
     (take 1 (concat (replies net)) = ''-'' \<or>
      (\<exists>ans. length ans = length (resp_commands (sent net)) \<and> list_all redis_answer ans \<and>
        (\<forall>i < length (replies net). \<exists>u. concat (take (Suc i) (replies net)) @ u =
           concat (take (length (resp_commands (take (heard net ! i) (sent net)))) ans)) \<and>
        (\<forall>i key ttl. i < length ans \<longrightarrow>
           resp_commands (sent net) ! i = [''SET'', key, ''1'', ''NX'', ''EX'', ttl] \<longrightarrow> take 1 (ans ! i) = ''+'' \<longrightarrow>
           (\<forall>e. (key, e) \<in> S \<longrightarrow> e \<le> now) \<and> (key, now + ngx_atotm ngx ttl) \<in> S')))"

lemma resp_commands_nil [simp]: "resp_commands [] = []"
  by (simp add: resp_commands_def)

lemma resp_commands_none: "resp_decode s = None \<Longrightarrow> resp_commands s = []"
  by (cases "length s") (simp_all add: resp_commands_def)

lemma resp_stream_fuel: "length s \<le> k \<Longrightarrow> resp_stream k s = resp_commands s"
  unfolding resp_commands_def
proof (induction k arbitrary: s rule: less_induct)
  case (less k)
  show ?case
  proof (cases "resp_decode s")
    case None
    then show ?thesis by (cases k; cases "length s") simp_all
  next
    case (Some r)
    then obtain args t where d: "resp_decode s = Some (args, t)" by (cases r) auto
    then have t: "length t < length s" by (rule resp_decode_shorter)
    then obtain k' n' where k': "k = Suc k'" and n': "length s = Suc n'"
      using less.prems by (cases k; cases "length s") auto
    have "resp_stream k' t = resp_stream (length t) t" "resp_stream n' t = resp_stream (length t) t"
      by (rule less.IH; use less.prems t k' n' in simp)+
    then show ?thesis using d k' n' by simp
  qed
qed

lemma resp_commands_cons: "resp_commands (resp_encode a @ s) = a # resp_commands s"
proof -
  obtain k where k: "length (resp_encode a) = Suc k" by (auto simp: resp_encode_def)
  have "resp_stream (k + length s) s = resp_commands s" by (rule resp_stream_fuel) simp
  then show ?thesis using k by (simp add: resp_commands_def resp_roundtrip)
qed

text \<open>What the server finds in the bytes of an accepted run.\<close>

lemma set_commands:
  fixes nc :: nonce_conf and nonce :: bytes
  assumes "ngx_core_api ngx" "0 \<le> ttl"
  defines "args \<equiv> [''SET'', nc_key_prefix nc @ nonce, ''1'', ''NX'', ''EX'', ngx_fmt_T ngx ttl]"
  shows "resp_commands (set_bytes ngx nc nonce ttl) \<in> {[args], []}"
proof (cases "length (redis_set_cmd ngx (nc_key_prefix nc) nonce ttl) \<le> 512")
  case True
  then have "set_bytes ngx nc nonce ttl = resp_encode args"
    unfolding args_def by (rule set_bytes_resp [OF assms(1,2)])
  then show ?thesis using resp_commands_cons [of args "[]"] by simp
next
  case False
  then show ?thesis using set_bytes_decoded [OF assms(1,2)] resp_commands_none by simp
qed

lemma auth_commands:
  assumes "ngx_core_api ngx" "nc_password nc \<noteq> []"
  shows "resp_commands (auth_bytes ngx nc) = [] \<or>
     (\<forall>t. resp_commands (auth_bytes ngx nc @ t) = [''AUTH'', nc_password nc] # resp_commands t)"
proof (cases "length (redis_auth_cmd ngx (nc_password nc)) \<le> 512")
  case True
  then have "auth_bytes ngx nc = resp_encode [''AUTH'', nc_password nc]"
    by (rule auth_bytes_resp [OF assms])
  then show ?thesis using resp_commands_cons by simp
next
  case False
  then show ?thesis using auth_bytes_decoded [OF assms] resp_commands_none by simp
qed

text \<open>
  The first chunk is a part of the OK to AUTH; if the next one starts with \<open>+\<close>, the OK was complete and
  the next chunk belongs to the next answer.
\<close>

lemma plus_after_ok:
  assumes "a @ u = ''+OK'' @ CRLF" "a \<noteq> []" "take 1 b = ''+''" "a @ b @ v = ''+OK'' @ CRLF @ y"
  shows "b @ v = y"
proof -
  have "\<exists>w. b = CHR ''+'' # w" using assms(3) by (cases b) auto
  then show ?thesis using assms(1,2,4) by (auto simp: append_eq_Cons_conv Cons_eq_append_conv)
qed

lemma redis_answer_plus: "redis_answer a \<Longrightarrow> take 1 a = ''+'' \<Longrightarrow> a = ''+OK'' @ CRLF"
  by (auto simp: redis_answer_def)

lemma take1_append: "a \<noteq> [] \<Longrightarrow> take 1 (a @ b) = take 1 a"
  by (cases a) simp_all

section \<open>Properties\<close>

text \<open>A connection on which nothing has happened yet.\<close>

definition fresh_net :: "redis_net \<Rightarrow> bool" where
  "fresh_net net \<longleftrightarrow> wire net = [] \<and> replies net = [] \<and> heard net = []"

lemma redis_ok_served:
  assumes "ngx_core_api ngx" "nonce_redis ngx env now vr nc nonce exp = (NGX_OK, vr', net')" "fresh_net (redis_io env)"
    and "exp - now \<le> time_max" "redis_serves ngx S t net' S'"
  shows "(\<forall>e. (nc_key_prefix nc @ nonce, e) \<in> S \<longrightarrow> e \<le> t) \<and> (nc_key_prefix nc @ nonce, t + (exp - now)) \<in> S'"
proof -
  let ?args = "[''SET'', nc_key_prefix nc @ nonce, ''1'', ''NX'', ''EX'', ngx_fmt_T ngx (exp - now)]"
  let ?auth = "auth_bytes ngx nc" and ?set = "set_bytes ngx nc nonce (exp - now)"
  note run = redis_ok_run [OF assms(2)]
  have alive: "now < exp" and s: "sent net' = ?auth @ ?set"
    and plus: "plus_answers ngx nc nonce (exp - now) 0 (replies net') (heard net')"
    using run assms(3) by (simp_all add: fresh_net_def)
  have ttl: "ngx_atotm ngx (ngx_fmt_T ngx (exp - now)) = exp - now"
    using alive assms(4) by (intro ngx_core_api.atotm_fmt [OF assms(1)]) auto
  have sets: "resp_commands ?set \<in> {[?args], []}" using alive by (intro set_commands [OF assms(1)]) simp
  have "\<exists>a w. replies net' = a # w \<and> take 1 a = ''+''"
    using plus by (auto simp: plus_answers_def simp del: take_Suc split: if_splits)
  then have "take 1 (concat (replies net')) \<noteq> ''-''" by (auto simp: take_Cons' split: list.splits if_splits)
  with assms(5) obtain ans where ans: "length ans = length (resp_commands (sent net'))" "list_all redis_answer ans"
    and got: "\<And>i. i < length (replies net') \<Longrightarrow> \<exists>u. concat (take (Suc i) (replies net')) @ u =
        concat (take (length (resp_commands (take (heard net' ! i) (sent net')))) ans)"
    and stored: "\<And>i key ttl. i < length ans \<Longrightarrow> resp_commands (sent net') ! i = [''SET'', key, ''1'', ''NX'', ''EX'', ttl] \<Longrightarrow>
        take 1 (ans ! i) = ''+'' \<Longrightarrow> (\<forall>e. (key, e) \<in> S \<longrightarrow> e \<le> t) \<and> (key, t + ngx_atotm ngx ttl) \<in> S'"
    unfolding redis_serves_def by blast
  note stored = stored [where key = "nc_key_prefix nc @ nonce" and ttl = "ngx_fmt_T ngx (exp - now)", unfolded ttl]
  show ?thesis
  proof (cases "nc_password nc = []")
    case True
    then obtain b u where b: "take 1 b = ''+''" "b @ u = concat (take (length (resp_commands ?set)) ans)"
      using plus got [of 0] s by (auto simp: plus_answers_def auth_bytes_def simp del: take_Suc)
    then have "resp_commands ?set \<noteq> []" by auto
    then have c: "resp_commands (sent net') = [?args]" using sets s True by (simp add: auth_bytes_def)
    then obtain x where "ans = [x]" using ans(1) by (auto simp: length_Suc_conv)
    then have "x = b @ u" using b(2) sets \<open>resp_commands ?set \<noteq> []\<close> by auto
    moreover have "b \<noteq> []" using b(1) by auto
    ultimately have "take 1 x = ''+''" using b(1) take1_append by simp
    then show ?thesis using stored [of 0] c \<open>ans = [x]\<close> by simp
  next
    case pw: False
    then obtain a b where ab: "take 1 a = ''+''" "take 1 b = ''+''" "replies net' = [a, b]"
        "heard net' = [length ?auth, length ?auth + length ?set]"
      using plus by (auto simp: plus_answers_def simp del: take_Suc)
    from got [of 0] obtain u where u: "a @ u = concat (take (length (resp_commands ?auth)) ans)"
      using ab s by auto
    from got [of 1] obtain v where v: "a @ b @ v = concat (take (length (resp_commands (?auth @ ?set))) ans)"
      using ab s by auto
    have ne: "a \<noteq> []" "b \<noteq> []" using ab by auto
    then have "resp_commands ?auth \<noteq> []" using u by auto
    then have c: "resp_commands (?auth @ t) = [''AUTH'', nc_password nc] # resp_commands t" for t
      using auth_commands [OF assms(1) pw] by blast
    then obtain x ys where x: "ans = x # ys" "length ys = length (resp_commands ?set)"
      using ans(1) s by (auto simp: length_Suc_conv)
    have au: "a @ u = x" and av: "a @ b @ v = x @ concat ys" using u v c [of "[]"] c [of ?set] x by simp_all
    have "take 1 x = ''+''" using au ab(1) take1_append [OF ne(1), of u] by simp
    then have ok: "x = ''+OK'' @ CRLF" using ans(2) x(1) redis_answer_plus by simp
    have bv: "b @ v = concat ys" using plus_after_ok [of a u b v "concat ys"] au av ok ne ab(2) by simp
    then have "ys \<noteq> []" using ne by auto
    then obtain y where y: "ys = [y]" "resp_commands ?set = [?args]" using sets x(2) by (auto simp: length_Suc_conv)
    then have "take 1 y = ''+''" using bv ab(2) take1_append [OF ne(2), of v] by simp
    then show ?thesis using stored [of 1] x(1) y s c [of ?set] by simp
  qed
qed

lemma check_redis_ok:
  assumes "nonce_check_and_set ngx shm env now vr nc zone nonce exp = (NGX_OK, vr', zone', net')"
    and "nc_storage nc = NONCE_REDIS"
  obtains vr1 where "nonce_redis ngx env now vr1 nc nonce exp = (NGX_OK, vr', net')"
  using assms by (auto simp: nonce_check_and_set_def Let_def split: prod.splits if_splits)

text \<open>
  C9: single use across the fleet.  When a node accepted a nonce with the redis backend, no node that uses
  the same server and key prefix accepts it again before the challenge expires, whatever the state of
  the nodes' own zones and whatever part of the answers reaches the nodes.  The server's clock must not be
  behind that of the first node when it answers (\<open>t1 \<le> s1\<close>), it answers the second node before the expiry
  (\<open>s2 < exp\<close>), and it must not lose unexpired keys in between.
\<close>

theorem redis_fleet_single_use:
  assumes "ngx_core_api ngx"
    and "nonce_check_and_set ngx shm env1 t1 vr1 nc1 zone1 nonce exp = (NGX_OK, vr1', zone1', net1)"
    and "nonce_check_and_set ngx shm env2 t2 vr2 nc2 zone2 nonce exp2 = (rc, vr2', zone2', net2)"
    and "nc_storage nc1 = NONCE_REDIS" "nc_storage nc2 = NONCE_REDIS" "nc_key_prefix nc1 = nc_key_prefix nc2"
    and "fresh_net (redis_io env1)" "fresh_net (redis_io env2)"
    and "exp - t1 \<le> time_max" "exp2 - t2 \<le> time_max"
    and "redis_serves ngx S1 s1 net1 S1'" "\<forall>k e. (k, e) \<in> S1' \<longrightarrow> s2 < e \<longrightarrow> (k, e) \<in> S2"
    and "redis_serves ngx S2 s2 net2 S2'" "t1 \<le> s1" "s2 < exp"
  shows "rc \<noteq> NGX_OK"
proof
  assume "rc = NGX_OK"
  with assms(3,5) obtain v2 where r2: "nonce_redis ngx env2 t2 v2 nc2 nonce exp2 = (NGX_OK, vr2', net2)"
    using check_redis_ok by blast
  from assms(2,4) obtain v1 where r1: "nonce_redis ngx env1 t1 v1 nc1 nonce exp = (NGX_OK, vr1', net1)"
    using check_redis_ok by blast
  have "(nc_key_prefix nc1 @ nonce, s1 + (exp - t1)) \<in> S1'"
    using redis_ok_served [OF assms(1) r1 assms(7,9,11)] by blast
  moreover have live: "s2 < s1 + (exp - t1)" using assms(14,15) by simp
  ultimately have "(nc_key_prefix nc2 @ nonce, s1 + (exp - t1)) \<in> S2" using assms(6,12) by simp
  moreover have "\<forall>e. (nc_key_prefix nc2 @ nonce, e) \<in> S2 \<longrightarrow> e \<le> s2"
    using redis_ok_served [OF assms(1) r2 assms(8,10,13)] by blast
  ultimately show False using live by force
qed

definition sample_check :: "bytes list \<Rightarrow> slab_ref nonce_zone option \<Rightarrow>
    ngx_rc \<times> verify_result \<times> slab_ref nonce_zone option \<times> redis_net" where
  "sample_check rs zone = nonce_check_and_set ngx_ref shm_ref (sample_redis rs) 100 sample_vr sample_nc zone ''n1'' 160"

lemma sample_check_run:
  "sample_check rs None = (case sample_redis_run rs of (rc, vr, net) \<Rightarrow>
     (if rc = NGX_OK \<or> rc = NGX_DECLINED then rc else NGX_ERROR, vr, None, net))"
  by (simp add: sample_check_def nonce_check_and_set_def sample_redis_run_def sample_nc_def split: prod.splits)

lemma sample_sent:
  "sent (sample_net_after r1 (Some r2)) = resp_encode [''AUTH'', ''s3cret''] @
     resp_encode [''SET'', ''pgp:n1'', ''1'', ''NX'', ''EX'', ngx_fmt_T ngx_ref 60]"
  using auth_bytes_resp [OF ref_core.ngx_core_api_axioms, of sample_nc]
    auth_cmd_fits [OF ref_core.ngx_core_api_axioms, of "nc_password sample_nc"]
    set_bytes_resp [OF ref_core.ngx_core_api_axioms, of 60 sample_nc "''n1''"]
    set_cmd_fits [OF ref_core.ngx_core_api_axioms, of 60 "nc_key_prefix sample_nc" "''n1''"]
  by (simp add: sent_def sample_net_after_def) (simp add: sample_nc_def time_max_def)

text \<open>The server's lines for these runs.\<close>

definition ok_line :: bytes where "ok_line = ''+OK'' @ CRLF"
definition nil_line :: bytes where "nil_line = ''$-1'' @ CRLF"

lemma sample_commands:
  "resp_commands (sent (sample_net_after r1 (Some r2))) =
     [[''AUTH'', ''s3cret''], [''SET'', ''pgp:n1'', ''1'', ''NX'', ''EX'', ngx_fmt_T ngx_ref 60]]"
  "resp_commands (take 26 (sent (sample_net_after r1 (Some r2)))) = [[''AUTH'', ''s3cret'']]"
  "take 82 (sent (sample_net_after r1 (Some r2))) = sent (sample_net_after r1 (Some r2))"
proof -
  let ?a = "resp_encode [''AUTH'', ''s3cret'']"
    and ?s = "resp_encode [''SET'', ''pgp:n1'', ''1'', ''NX'', ''EX'', ngx_fmt_T ngx_ref 60]"
  note s = sample_sent [of r1 r2]
  have "length ?a = 26" "length ?s = 56"
    by (simp_all add: resp_encode_def resp_bulk_def fmt_nat.simps ngx_ref_def)
  then show "resp_commands (sent (sample_net_after r1 (Some r2))) =
     [[''AUTH'', ''s3cret''], [''SET'', ''pgp:n1'', ''1'', ''NX'', ''EX'', ngx_fmt_T ngx_ref 60]]"
    "resp_commands (take 26 (sent (sample_net_after r1 (Some r2)))) = [[''AUTH'', ''s3cret'']]"
    "take 82 (sent (sample_net_after r1 (Some r2))) = sent (sample_net_after r1 (Some r2))"
    using resp_commands_cons [of _ ?s] resp_commands_cons [of _ "[]"] unfolding s by simp_all
qed

lemma sample_serves:
  "redis_serves ngx_ref {} 100 (sample_net_after ok_line (Some ok_line)) {(''pgp:n1'', 160)}"
  "redis_serves ngx_ref {(''pgp:n1'', 160)} 100 (sample_net_after ok_line (Some nil_line)) {(''pgp:n1'', 160)}"
proof -
  have ttl: "ngx_atotm ngx_ref (ngx_fmt_T ngx_ref 60) = 60" using ref_core.atotm_fmt [of 60] by (simp add: time_max_def)
  have fields: "replies (sample_net_after r1 (Some r2)) = [r1, r2]" "heard (sample_net_after r1 (Some r2)) = [26, 82]" for r1 r2
    by (simp_all add: sample_net_after_def)
  have chunks: "\<exists>u. concat (take (Suc i) [a, b]) @ u = concat (take (length (resp_commands (take ([26, 82] ! i)
      (sent (sample_net_after a (Some b)))))) [a, b])" if "i < Suc (Suc 0)" for i a b
    using that by (cases i) (simp_all add: sample_commands)
  show "redis_serves ngx_ref {} 100 (sample_net_after ok_line (Some ok_line)) {(''pgp:n1'', 160)}"
    unfolding redis_serves_def fields
    by (intro conjI disjI2 exI [of _ "[ok_line, ok_line]"])
      (auto simp: sample_commands chunks redis_answer_def ok_line_def less_Suc_eq ttl)
  show "redis_serves ngx_ref {(''pgp:n1'', 160)} 100 (sample_net_after ok_line (Some nil_line)) {(''pgp:n1'', 160)}"
    unfolding redis_serves_def fields
    by (intro conjI disjI2 exI [of _ "[ok_line, nil_line]"])
      (auto simp: sample_commands chunks redis_answer_def ok_line_def nil_line_def less_Suc_eq)
qed

theorem redis_fleet_single_use_witness:
  "fst (sample_check [ok_line, ok_line] None) = NGX_OK \<and> fst (sample_check [ok_line, nil_line] None) \<noteq> NGX_OK"
proof -
  have c1: "sample_check [ok_line, ok_line] None = (NGX_OK, sample_vr, None, sample_net_after ok_line (Some ok_line))"
    and c2: "sample_check [ok_line, nil_line] None = (NGX_DECLINED, sample_vr, None, sample_net_after ok_line (Some nil_line))"
    using sample_run_lines [of ok_line ok_line] sample_run_lines [of ok_line nil_line]
    by (simp_all add: sample_check_run redis_set_reply_def ok_line_def nil_line_def)
  from redis_fleet_single_use [OF ref_core.ngx_core_api_axioms c1 [unfolded sample_check_def]
      c2 [unfolded sample_check_def] _ _ _ _ _ _ _ sample_serves(1) _ sample_serves(2)] c1 c2
  show ?thesis by (simp add: sample_nc_def sample_redis_def sample_net_def fresh_net_def time_max_def)
qed

text \<open>The verdict of Redis does not depend on what is in the result struct.\<close>

lemma redis_verdict_indep:
  "fst (nonce_redis ngx env now vr nc nonce exp) = fst (nonce_redis ngx env now vr0 nc nonce exp)"
proof -
  have reply: "fst (redis_set_reply vr r) = fst (redis_set_reply vr0 r)" for vr vr0 r
    by (simp add: redis_set_reply_def split: option.splits)
  have dialogue: "fst (redis_dialogue ngx vr nc nonce ttl ssl net) = fst (redis_dialogue ngx vr0 nc nonce ttl ssl net)"
    for vr vr0 ttl ssl net
    using reply by (auto simp: redis_dialogue_def split: prod.splits) (metis fst_conv)+
  have tls: "fst (nonce_tls e vr h v ca nm net) = fst (nonce_tls e vr0 h v ca nm net) \<and>
      snd (snd (nonce_tls e vr h v ca nm net)) = snd (snd (nonce_tls e vr0 h v ca nm net))" for e h v ca nm net
    by (simp only: nonce_tls_def Let_def if_distrib [of fst] if_distrib [of snd] prod.case_distrib [of fst]
        prod.case_distrib [of snd] bool.case_distrib [of fst] bool.case_distrib [of snd] fst_conv snd_conv simp_thms)
  show ?thesis
  proof (cases "strrchr_split (c_str (nc_addr nc)) (CHR '':'')")
    case None
    then show ?thesis by (simp add: nonce_redis_def Let_def)
  next
    case (Some hp)
    then obtain h p where hp: "strrchr_split (c_str (nc_addr nc)) (CHR '':'') = Some (h, p)" by (cases hp) auto
    show ?thesis
    proof (cases "getaddrinfo env h p")
      case None
      then show ?thesis using hp by (simp add: nonce_redis_def Let_def)
    next
      case (Some ai)
      obtain ok net where c: "redis_connect ai (redis_io env) = (ok, net)" by fastforce
      obtain ses v1 v2 n where "nonce_tls (tls_lib env) vr h (nc_tls_verify nc) (nc_tls_ca nc) (nc_tls_name nc) net = (ses, v1, n)"
          "nonce_tls (tls_lib env) vr0 h (nc_tls_verify nc) (nc_tls_ca nc) (nc_tls_name nc) net = (ses, v2, n)"
        using tls by (metis prod.collapse)
      then show ?thesis
        using hp Some c dialogue [of vr _ _ _ vr0] dialogue [of v1 _ _ _ v2]
        by (cases ok; cases ses) (simp_all add: nonce_redis_def Let_def)
    qed
  qed
qed

text \<open>What the zone of a node, if there is one, knows, and that it is well formed.\<close>

definition known :: "'p nonce_zone option \<Rightarrow> (bytes \<times> time_t) set" where
  "known zone = (case zone of None \<Rightarrow> {} | Some z \<Rightarrow> spent z)"

definition zone_opt_ok :: "ngx_lib \<Rightarrow> ('p \<Rightarrow> addr set) \<Rightarrow> 'p nonce_zone option \<Rightarrow> bool" where
  "zone_opt_ok ngx live zone \<longleftrightarrow> (\<forall>z. zone = Some z \<longrightarrow> zone_ok (ngx_crc32_short ngx) live z)"

lemma memory_opt:
  assumes "ngx_shm_api shm live" "zone_opt_ok ngx live zone" "nonce_memory ngx shm now vr zone nonce exp = (rc, vr', zone')"
  shows "(zone' = None \<longleftrightarrow> zone = None) \<and> zone_opt_ok ngx live zone' \<and>
     consume_spec now nonce exp (known zone) rc (known zone')"
proof (cases zone)
  case None
  then show ?thesis using assms(3) by (auto simp: nonce_memory_def zone_opt_ok_def known_def consume_spec_def kept_def)
next
  case (Some z)
  then obtain z' where "zone' = Some z'" "mem_consume ngx shm z now nonce exp = (rc, z')"
    using nonce_memory_consume assms(3) by blast
  then show ?thesis
    using ngx_shm_api.mem_consume_meets_spec [OF assms(1), of ngx z] assms(2) Some by (auto simp: zone_opt_ok_def known_def)
qed

text \<open>Whatever the zone answers other than a refusal, the nonce was not live in it.\<close>

lemma memory_not_refused:
  assumes "ngx_shm_api shm live" "zone_opt_ok ngx live zone" "nonce_memory ngx shm now vr zone nonce exp = (rc, vr', zone')"
    and "rc \<noteq> NGX_DECLINED" "(nonce, e) \<in> known zone"
  shows "e \<le> now"
proof -
  from assms(5) obtain z n where z: "zone = Some z" "n \<in> ran (nodes z)" "data n = nonce" "(nonce, e) \<in> spent z"
    by (cases zone) (auto simp: known_def spent_def)
  have ok: "zone_ok (ngx_crc32_short ngx) live z" using assms(2) z(1) by (simp add: zone_opt_ok_def)
  then have "node_ok (ngx_crc32_short ngx) n" using z(2) by (simp add: zone_ok_def)
  then have len: "length nonce \<le> 65535"
    using unsigned_less [of "len n", where ?'a = nat] z(3) by (simp add: node_ok_def)
  obtain z' where run: "mem_consume ngx shm z now nonce exp = (rc, z')" using nonce_memory_consume assms(3) z(1) by blast
  then have "nonce \<notin> fst ` spent (nonce_evict_expired shm z now 8)"
    using ngx_shm_api.mem_consume_cases [OF assms(1) ok len, of now exp] assms(4)
    by (metis (no_types, lifting) prod.inject)
  then show ?thesis
    using ngx_shm_api.evict_keeps_live [OF assms(1) ok z(4), of now 8] by (force simp: not_less)
qed

lemma spec_facts:
  assumes "consume_spec now nonce exp S rc S'"
  shows "rc \<in> {NGX_OK, NGX_DECLINED, NGX_ERROR}" "\<forall>s e. (s, e) \<in> S \<longrightarrow> now < e \<longrightarrow> (s, e) \<in> S'"
    "rc = NGX_OK \<longrightarrow> (nonce, exp) \<in> S'"
  using assms by (auto simp: consume_spec_def kept_def)

text \<open>The combined store on the redis backend: the zone refuses, or Redis decides.\<close>

lemma check_redis_cases [consumes 2, case_names refused asked]:
  assumes "nonce_check_and_set ngx shm env now vr nc zone nonce exp = (rc, vr', zone', net')" "nc_storage nc = NONCE_REDIS"
  obtains vr1 where "zone \<noteq> None" "nonce_memory ngx shm now vr zone nonce exp = (NGX_DECLINED, vr1, zone')"
      "rc = NGX_DECLINED" "net' = redis_io env"
  | local_rc vr1 redis_rc where "zone = None \<and> zone' = None \<or>
      zone \<noteq> None \<and> nonce_memory ngx shm now vr zone nonce exp = (local_rc, vr1, zone') \<and> local_rc \<noteq> NGX_DECLINED"
      "nonce_redis ngx env now vr1 nc nonce exp = (redis_rc, vr', net')"
      "rc = (if redis_rc = NGX_OK \<or> redis_rc = NGX_DECLINED then redis_rc else NGX_ERROR)"
proof (cases "zone = None")
  case True
  then show ?thesis
    using that(2) assms by (auto simp: nonce_check_and_set_def split: prod.splits if_splits)
next
  case False
  obtain l v z where mem: "nonce_memory ngx shm now vr zone nonce exp = (l, v, z)" by (metis prod_cases3)
  obtain r v' n where red: "nonce_redis ngx env now v nc nonce exp = (r, v', n)" by (metis prod_cases3)
  show ?thesis
  proof (cases "l = NGX_DECLINED")
    case True
    then show ?thesis using that(1) [of v] False mem assms by (simp add: nonce_check_and_set_def)
  next
    case l: False
    then have "zone' = z" "vr' = v'" "net' = n" "rc = (if r = NGX_OK \<or> r = NGX_DECLINED then r else NGX_ERROR)"
      using False mem red assms by (auto simp: nonce_check_and_set_def split: if_splits)
    then show ?thesis using that(2) [of l v r] False mem red l by simp
  qed
qed

text \<open>
  C22: the store fails closed and the zone of the node is reject-only.  The outcome is accepted, refused or
  an error, a zone stays well formed and forgets nothing that is still alive.  With a store
  (memory or redis), a nonce that is recorded in the zone and still alive is never accepted.  The memory backend accepts only with a
  zone, and the nonce is then recorded in it.  The redis backend accepts only if the challenge is alive, all
  of AUTH and SET was sent and each got its own reply that starts with +; a zone never changes its
  verdict except to a refusal, and after that Redis is not asked.  Without a store everything is accepted.
\<close>

theorem check_and_set_fails_closed:
  assumes "ngx_shm_api shm live" "zone_opt_ok ngx live zone" "fresh_net (redis_io env)"
    and "nonce_check_and_set ngx shm env now vr nc zone nonce exp = (rc, vr', zone', net')"
  shows "rc \<in> {NGX_OK, NGX_DECLINED, NGX_ERROR} \<and> (zone' = None \<longleftrightarrow> zone = None) \<and> zone_opt_ok ngx live zone' \<and>
    (\<forall>s e. (s, e) \<in> known zone \<longrightarrow> now < e \<longrightarrow> (s, e) \<in> known zone') \<and>
    (rc = NGX_OK \<longrightarrow> nc_storage nc \<noteq> NONCE_NONE \<longrightarrow> (\<forall>e. (nonce, e) \<in> known zone \<longrightarrow> e \<le> now)) \<and>
    (rc = NGX_OK \<longrightarrow> nc_storage nc = NONCE_MEMORY \<longrightarrow> zone \<noteq> None \<and> (nonce, exp) \<in> known zone') \<and>
    (rc = NGX_OK \<longrightarrow> nc_storage nc = NONCE_REDIS \<longrightarrow> now < exp \<and>
       sent net' = auth_bytes ngx nc @ set_bytes ngx nc nonce (exp - now) \<and>
       plus_answers ngx nc nonce (exp - now) 0 (replies net') (heard net')) \<and>
    (nc_storage nc = NONCE_REDIS \<longrightarrow>
       rc = fst (nonce_check_and_set ngx shm env now vr nc None nonce exp) \<or>
       rc = NGX_DECLINED \<and> net' = redis_io env) \<and>
    (nc_storage nc = NONCE_NONE \<longrightarrow> rc = NGX_OK \<and> zone' = zone)"
proof (cases "nc_storage nc")
  case NONCE_NONE
  then show ?thesis using assms(2,4) by (auto simp: nonce_check_and_set_def)
next
  case NONCE_MEMORY
  then have mem: "nonce_memory ngx shm now vr zone nonce exp = (rc, vr', zone')"
    using assms(4) by (auto simp: nonce_check_and_set_def split: prod.splits)
  have "zone = None \<Longrightarrow> rc = NGX_ERROR" using mem by (simp add: nonce_memory_def)
  then show ?thesis
    using NONCE_MEMORY memory_opt [OF assms(1,2) mem] spec_facts [of now nonce exp "known zone" rc "known zone'"]
      memory_not_refused [OF assms(1,2) mem] by auto
next
  case NONCE_REDIS
  show ?thesis using assms(4) NONCE_REDIS
  proof (cases rule: check_redis_cases)
    case (refused vr1)
    then show ?thesis
      using NONCE_REDIS memory_opt [OF assms(1,2) refused(2)] spec_facts(2) by auto
  next
    case (asked local_rc vr1 redis_rc)
    have zone: "(zone' = None \<longleftrightarrow> zone = None) \<and> zone_opt_ok ngx live zone' \<and>
        (\<forall>s e. (s, e) \<in> known zone \<longrightarrow> now < e \<longrightarrow> (s, e) \<in> known zone') \<and> (\<forall>e. (nonce, e) \<in> known zone \<longrightarrow> e \<le> now)"
      using asked(1) memory_opt [OF assms(1,2)] spec_facts(2) memory_not_refused [OF assms(1,2)]
      by (auto simp: zone_opt_ok_def known_def) blast+
    have "rc = NGX_OK \<longrightarrow> redis_rc = NGX_OK" "rc \<in> {NGX_OK, NGX_DECLINED, NGX_ERROR}"
      using asked(3) by (simp_all split: if_splits)
    moreover have "rc = fst (nonce_check_and_set ngx shm env now vr nc None nonce exp)"
      using asked(2,3) NONCE_REDIS redis_verdict_indep [of ngx env now vr nc nonce exp vr1]
      by (auto simp: nonce_check_and_set_def split: prod.splits)
    ultimately show ?thesis
      using NONCE_REDIS zone asked(2) redis_ok_run [of ngx env now vr1 nc nonce exp vr' net'] assms(3)
      by (simp add: fresh_net_def)
  qed
qed

text \<open>Redis refuses the password: the login fails although the zone of the node accepts the nonce.\<close>

theorem check_and_set_fails_closed_witness:
  "fst (sample_check [''-ERR'', ''+OK''] (Some sample_zone)) = NGX_ERROR \<and>
   (\<exists>z'. fst (snd (snd (sample_check [''-ERR'', ''+OK''] (Some sample_zone)))) = Some z' \<and>
     zone_ok (ngx_crc32_short ngx_ref) live_ref z')"
proof -
  let ?r = "sample_check [''-ERR'', ''+OK''] (Some sample_zone)"
  have none: "fst (sample_check [''-ERR'', ''+OK''] None) = NGX_ERROR" by (simp add: sample_check_run sample_run)
  have mem: "fst (nonce_memory ngx_ref shm_ref 100 sample_vr (Some sample_zone) ''n1'' 160) = NGX_OK"
    by (simp add: nonce_eval)
  have asked: "fst ?r \<noteq> NGX_DECLINED"
    using mem sample_run(3) redis_verdict_indep [of ngx_ref "sample_redis [''-ERR'', ''+OK'']" 100 _ sample_nc "''n1''" 160 sample_vr]
    by (auto simp: sample_check_def nonce_check_and_set_def sample_redis_run_def split: prod.splits nonce_storage.splits)
      (metis fst_conv ngx_rc.distinct)
  have fresh: "fresh_net (redis_io (sample_redis [''-ERR'', ''+OK'']))"
    by (simp add: fresh_net_def sample_redis_def sample_net_def)
  have zok: "zone_opt_ok ngx_ref live_ref (Some sample_zone)" using sample_zone_ok by (simp add: zone_opt_ok_def)
  have "?r = (fst ?r, fst (snd ?r), fst (snd (snd ?r)), snd (snd (snd ?r)))" by simp
  from check_and_set_fails_closed [OF ref_shm.ngx_shm_api_axioms zok fresh this [unfolded sample_check_def]] none asked
  show ?thesis by (auto simp: sample_check_def sample_nc_def zone_opt_ok_def)
qed

end
