(* ===== verification/Throttle.thy ===== *)
theory Throttle
  imports Shm_Zone
begin

text \<open>
  \<open>ngx_http_pgp_auth_throttle.c\<close>: failed logins are counted per client address in a shared zone, and
  an address with too many failures in a window is refused for a while.  The zone is the
  structure of theory \<open>Shm_Zone\<close>.  The client address is the text form that the connection
  carries; the operations return the log lines they write.
\<close>

section \<open>Model\<close>

text \<open>The counter is a 64-bit \<open>ngx_uint_t\<close> that grows by one per failed login, hence a \<open>nat\<close>.\<close>

record throttle_node = shm_node +
  window_start :: time_t
  banned_until :: time_t
  count :: nat

type_synonym 'p throttle_zone = "(throttle_node, 'p) shm_zone"

definition throttle_lookup :: "'p throttle_zone \<Rightarrow> 32 word \<Rightarrow> bytes \<Rightarrow> addr option" where
  "throttle_lookup z hash ip = rbtree_lookup (nodes z) (rbtree z) hash ip"

text \<open>
  The eviction pass visits the queue from its old end; \<open>as\<close> are the entries still to visit (the
  predecessor is read before an entry is removed, so removals do not disturb the walk).
\<close>

fun evict_walk :: "'p ngx_shm \<Rightarrow> time_t \<Rightarrow> time_t \<Rightarrow> addr list \<Rightarrow> 'p throttle_zone \<Rightarrow> 'p throttle_zone" where
  "evict_walk shm now stale_after [] z = z"
| "evict_walk shm now stale_after (a # as) z =
     (let n = the (nodes z a);
          z = (if banned_until n \<le> now \<and> window_start n + stale_after \<le> now then shm_unlink shm a z else z)
      in evict_walk shm now stale_after as z)"

definition throttle_evict_stale :: "'p ngx_shm \<Rightarrow> 'p throttle_zone \<Rightarrow> time_t \<Rightarrow> time_t \<Rightarrow> nat \<Rightarrow> 'p throttle_zone" where
  "throttle_evict_stale shm z now window m =
     (let stale_after = (if window < 3600 then 3600 else window) in
      evict_walk shm now stale_after (take m (rev (queue z))) z)"

definition throttle_is_banned :: "ngx_lib \<Rightarrow> time_t \<Rightarrow> bytes \<Rightarrow> 'p throttle_zone option
    \<Rightarrow> ngx_rc \<times> (nat \<times> bytes) list" where
  "throttle_is_banned ngx now ip zone =
     (case zone of
        None \<Rightarrow> (NGX_OK, [])
      | Some z \<Rightarrow>
          if ip = [] \<or> length ip > 65535 then (NGX_OK, [])
          else (case throttle_lookup z (ngx_crc32_short ngx ip) ip of
              None \<Rightarrow> (NGX_OK, [])
            | Some a \<Rightarrow>
                let n = the (nodes z a) in
                if banned_until n > now then
                  (NGX_DECLINED,
                   [(NGX_LOG_NOTICE,
                     ''pgp_auth_event: result='' @ [CHR 0x22] @ ''denied'' @ [CHR 0x22] @ '' reason='' @ [CHR 0x22] @
                     ''throttled'' @ [CHR 0x22] @ '' ip='' @ [CHR 0x22] @ ip @ [CHR 0x22] @ '' banned_for='' @
                     ngx_fmt_T ngx (banned_until n - now))])
                else (NGX_OK, [])))"

text \<open>\<open>offsetof (ngx_http_pgp_throttle_node_t, data)\<close>: links, two times, counter and length.\<close>

definition throttle_data_offset :: "'p ngx_shm \<Rightarrow> nat" where
  "throttle_data_offset shm = links_size shm + 8 + 8 + 8 + 2"

definition throttle_fill :: "ngx_lib \<Rightarrow> bytes \<Rightarrow> time_t \<Rightarrow> throttle_node" where
  "throttle_fill ngx ip now = \<lparr>node_key = ngx_crc32_short ngx ip, len = of_nat (length ip), data = ip,
     window_start = now, banned_until = 0, count = 0\<rparr>"

text \<open>Finding room for a new entry: a small eviction pass, then a large one if the zone is full.\<close>

definition throttle_alloc :: "'p ngx_shm \<Rightarrow> time_t \<Rightarrow> time_t \<Rightarrow> nat \<Rightarrow> 'p throttle_zone
    \<Rightarrow> addr option \<times> 'p throttle_zone" where
  "throttle_alloc shm now window sz z =
     (let z = throttle_evict_stale shm z now window 8 in
      case slab_alloc shm (pool z) sz of
        Some (a, p) \<Rightarrow> (Some a, z\<lparr>pool := p\<rparr>)
      | None \<Rightarrow>
          let z = throttle_evict_stale shm z now window 512 in
          (case slab_alloc shm (pool z) sz of
             Some (a, p) \<Rightarrow> (Some a, z\<lparr>pool := p\<rparr>)
           | None \<Rightarrow> (None, z)))"

text \<open>The accounting of one failure in the entry of the address.\<close>

definition throttle_count :: "time_t \<Rightarrow> nat \<Rightarrow> time_t \<Rightarrow> time_t \<Rightarrow> throttle_node \<Rightarrow> throttle_node" where
  "throttle_count now limit window ban_time n =
     (let n = (if window_start n + window \<le> now then n\<lparr>window_start := now, count := 0\<rparr> else n);
          n = n\<lparr>count := Suc (count n)\<rparr>
      in if count n \<ge> limit then n\<lparr>banned_until := now + ban_time\<rparr> else n)"

definition throttle_failure :: "ngx_lib \<Rightarrow> 'p ngx_shm \<Rightarrow> time_t \<Rightarrow> bytes \<Rightarrow> nat \<Rightarrow> time_t \<Rightarrow> time_t \<Rightarrow> addr
    \<Rightarrow> 'p throttle_zone \<Rightarrow> 'p throttle_zone \<times> (nat \<times> bytes) list" where
  "throttle_failure ngx shm now ip limit window ban_time a z =
     (let n = throttle_count now limit window ban_time (the (nodes z a)) in
      (z\<lparr>nodes := (nodes z)(a \<mapsto> n)\<rparr>,
       if count n \<ge> limit then
         [(NGX_LOG_NOTICE,
           ''pgp_auth_event: result='' @ [CHR 0x22] @ ''throttle_triggered'' @ [CHR 0x22] @ '' ip='' @ [CHR 0x22] @
           ip @ [CHR 0x22] @ '' failures='' @ ngx_fmt_T ngx (int (count n)) @ '' ban_seconds='' @
           ngx_fmt_T ngx ban_time)]
       else []))"

definition throttle_record :: "ngx_lib \<Rightarrow> 'p ngx_shm \<Rightarrow> time_t \<Rightarrow> bytes \<Rightarrow> 'p throttle_zone option \<Rightarrow> bool
    \<Rightarrow> nat \<Rightarrow> time_t \<Rightarrow> time_t \<Rightarrow> 'p throttle_zone option \<times> (nat \<times> bytes) list" where
  "throttle_record ngx shm now ip zone success limit window ban_time =
     (case zone of
        None \<Rightarrow> (None, [])
      | Some z \<Rightarrow>
          if ip = [] \<or> length ip > 65535 then (Some z, [])
          else let found = throttle_lookup z (ngx_crc32_short ngx ip) ip in
            if success then
              (case found of
                 None \<Rightarrow> (Some z, [])
               | Some a \<Rightarrow> (Some (shm_unlink shm a z), []))
            else (case found of
                None \<Rightarrow>
                  (case throttle_alloc shm now window (throttle_data_offset shm + length ip) z of
                     (None, z) \<Rightarrow>
                       (Some z, [(NGX_LOG_NOTICE,
                          ''pgp_auth: failure-throttle zone full; skipping this '' @
                          ''attempt's accounting (raise pgp_auth_failure_zone_size)'')])
                   | (Some a, z) \<Rightarrow>
                       (case throttle_failure ngx shm now ip limit window ban_time a
                              (shm_link shm a (throttle_fill ngx ip now) z) of
                          (z, log) \<Rightarrow> (Some z, log)))
              | Some a \<Rightarrow>
                  (case throttle_failure ngx shm now ip limit window ban_time a
                         (z\<lparr>queue := a # remove1 a (queue z)\<rparr>) of
                     (z, log) \<Rightarrow> (Some z, log))))"

text \<open>Zone set-up, as in the nonce store; here the context is allocated before the zone is added.\<close>

definition throttle_init_zone :: "'p ngx_shm \<Rightarrow> nat \<Rightarrow> 'p throttle_zone option \<Rightarrow> 'p throttle_zone option \<Rightarrow> 'p
    \<Rightarrow> ngx_rc \<times> 'p throttle_zone option" where
  "throttle_init_zone shm sh_size octx existing shpool =
     (case octx of
        Some z \<Rightarrow> (NGX_OK, Some z)
      | None \<Rightarrow> (case existing of
          Some z \<Rightarrow> (NGX_OK, Some z)
        | None \<Rightarrow> (case slab_alloc shm shpool sh_size of
            None \<Rightarrow> (NGX_ERROR, None)
          | Some (a, p) \<Rightarrow> (NGX_OK, Some (empty_zone p)))))"

definition throttle_add_zone :: "bool option \<Rightarrow> bool \<Rightarrow> bool \<times> bool" where
  "throttle_add_zone added pcalloc_ok =
     (if \<not> pcalloc_ok then (False, False)
      else case added of
        None \<Rightarrow> (False, False)
      | Some has_data \<Rightarrow> if has_data then (True, False) else (True, True))"

section \<open>The contract\<close>

text \<open>
  What the zone knows of an address: start of the window, end of the ban, failures in the window.
  \<open>fail_step\<close> is the effect of one failure, \<open>stale_entry\<close> says which entries may be forgotten.
\<close>

type_synonym throttle_entry = "time_t \<times> time_t \<times> nat"

definition fail_step :: "nat \<Rightarrow> time_t \<Rightarrow> time_t \<Rightarrow> time_t \<Rightarrow> throttle_entry \<Rightarrow> throttle_entry" where
  "fail_step limit window ban_time now e = (case e of (ws, bu, c) \<Rightarrow>
     if ws + window \<le> now then (now, if limit \<le> 1 then now + ban_time else bu, 1)
     else (ws, if limit \<le> Suc c then now + ban_time else bu, Suc c))"

definition stale_entry :: "time_t \<Rightarrow> time_t \<Rightarrow> throttle_entry \<Rightarrow> bool" where
  "stale_entry window now e \<longleftrightarrow> (case e of (ws, bu, c) \<Rightarrow> bu \<le> now \<and> ws + max window 3600 \<le> now)"

definition ip_ok :: "bytes \<Rightarrow> bool" where
  "ip_ok ip \<longleftrightarrow> ip \<noteq> [] \<and> length ip \<le> 65535"

text \<open>A login attempt: time, address, and whether it succeeded.\<close>

type_synonym attempt = "time_t \<times> bytes \<times> bool"

definition failures_of :: "bytes \<Rightarrow> attempt list \<Rightarrow> nat" where
  "failures_of ip evs = length (filter (\<lambda>(t, i, ok). i = ip) evs)"

fun attempts_run :: "('s \<Rightarrow> time_t \<Rightarrow> bytes \<Rightarrow> bool \<Rightarrow> 's) \<Rightarrow> 's \<Rightarrow> attempt list \<Rightarrow> 's" where
  "attempts_run rec_op s [] = s"
| "attempts_run rec_op s ((t, ip, ok) # evs) = attempts_run rec_op (rec_op s t ip ok) evs"

locale failure_throttle =
  fixes record_op :: "'s \<Rightarrow> time_t \<Rightarrow> bytes \<Rightarrow> bool \<Rightarrow> 's"
    and banned :: "'s \<Rightarrow> time_t \<Rightarrow> bytes \<Rightarrow> bool"
    and view :: "'s \<Rightarrow> bytes \<Rightarrow> throttle_entry option"
    and inv :: "'s \<Rightarrow> bool"
    and limit :: nat and window ban_time :: time_t
  assumes record_inv: "inv s \<Longrightarrow> inv (record_op s now ip ok)"
    and record_known: "inv s \<Longrightarrow> ip_ok ip \<Longrightarrow> view s ip = Some e \<Longrightarrow>
      view (record_op s now ip False) ip = Some (fail_step limit window ban_time now e)"
    and record_new: "inv s \<Longrightarrow> ip_ok ip \<Longrightarrow> view s ip = None \<Longrightarrow>
      view (record_op s now ip False) ip \<in> {None, Some (fail_step limit window ban_time now (now, 0, 0))}"
    and record_success: "inv s \<Longrightarrow> ip_ok ip \<Longrightarrow> view (record_op s now ip True) ip = None"
    and record_other: "inv s \<Longrightarrow> ip_ok ip' \<Longrightarrow> ip' \<noteq> ip \<Longrightarrow>
      view (record_op s now ip ok) ip' = view s ip' \<or>
      (\<exists>e. view s ip' = Some e \<and> stale_entry window now e \<and> view (record_op s now ip ok) ip' = None)"
    and banned_view: "inv s \<Longrightarrow> ip_ok ip \<Longrightarrow> banned s now ip \<longleftrightarrow> (\<exists>ws bu c. view s ip = Some (ws, bu, c) \<and> now < bu)"
begin

abbreviation run where "run \<equiv> attempts_run record_op"

lemma run_append [simp]: "run s (evs @ evs') = run (run s evs) evs'"
  by (induction evs arbitrary: s) auto

lemma run_inv: "inv s \<Longrightarrow> inv (run s evs)"
  by (induction evs arbitrary: s) (auto simp: record_inv)

text \<open>While the window lasts, every failure is counted and nothing else disturbs the entry.\<close>

lemma run_counts:
  assumes "inv s" "ip_ok ip" "view s ip = Some (t0, bu, c)"
    and "\<And>t i ok. (t, i, ok) \<in> set evs \<Longrightarrow> t < t0 + window \<and> (i = ip \<longrightarrow> \<not> ok)"
  shows "\<exists>bu'. view (run s evs) ip = Some (t0, bu', c + failures_of ip evs)"
  using assms
proof (induction evs arbitrary: s bu c)
  case (Cons ev evs)
  obtain t i ok where ev: "ev = (t, i, ok)" by (cases ev)
  note 2 = Cons.IH Cons.prems [unfolded ev]
  have step: "\<exists>bu'. view (record_op s t i ok) ip = Some (t0, bu', if i = ip then Suc c else c)"
  proof (cases "i = ip")
    case True
    then show ?thesis using record_known [OF 2(2-4), of t] 2(5) [of t i ok]
      by (cases ok) (auto simp: fail_step_def)
  next
    case False
    have "\<not> stale_entry window t (t0, bu, c)" using 2(5) [of t i ok] by (auto simp: stale_entry_def max_def)
    then show ?thesis using record_other [OF 2(2,3), of i t ok] False 2(4) by auto
  qed
  then obtain bu1 where "view (record_op s t i ok) ip = Some (t0, bu1, if i = ip then Suc c else c)" ..
  from Cons.IH [OF record_inv [OF 2(2)] 2(3) this 2(5)] show ?case
    by (auto simp: failures_of_def ev)
qed (simp add: failures_of_def)

text \<open>A running ban survives whatever the other addresses do.\<close>

lemma run_ban_stays:
  assumes "inv s" "ip_ok ip" "view s ip = Some (ws, bu, c)"
    and "\<And>t i ok. (t, i, ok) \<in> set evs \<Longrightarrow> t < bu \<and> i \<noteq> ip"
  shows "view (run s evs) ip = Some (ws, bu, c)"
  using assms
proof (induction evs arbitrary: s)
  case (Cons ev evs)
  obtain t i ok where ev: "ev = (t, i, ok)" by (cases ev)
  note 2 = Cons.IH Cons.prems [unfolded ev]
  have "\<not> stale_entry window t (ws, bu, c)" using 2(5) [of t i ok] by (simp add: stale_entry_def)
  then have "view (record_op s t i ok) ip = Some (ws, bu, c)"
    using record_other [OF 2(2,3), of i t ok] 2(4) 2(5) [of t i ok] by auto
  then have "view (run (record_op s t i ok) evs) ip = Some (ws, bu, c)"
    by (rule Cons.IH [OF record_inv [OF 2(2)] 2(3)]) (use Cons.prems(4) in auto)
  then show ?case by (simp add: ev)
qed simp

lemma run_bans:
  assumes "inv s" "ip_ok ip" "view s ip = Some (t0, bu, c)"
    and "\<And>t' i ok. (t', i, ok) \<in> set (evs @ [(t, ip, False)]) \<Longrightarrow> t' < t0 + window \<and> (i = ip \<longrightarrow> \<not> ok)"
    and "limit \<le> c + failures_of ip evs + 1"
    and "\<And>t' i ok. (t', i, ok) \<in> set later \<Longrightarrow> t' < t + ban_time \<and> i \<noteq> ip"
    and "now < t + ban_time"
  shows "banned (run s (evs @ (t, ip, False) # later)) now ip"
proof -
  obtain bu' where v: "view (run s evs) ip = Some (t0, bu', c + failures_of ip evs)"
    using run_counts [OF assms(1-3), of evs] assms(4) by auto
  have "view (record_op (run s evs) t ip False) ip = Some (t0, t + ban_time, Suc (c + failures_of ip evs))"
    using record_known [OF run_inv [OF assms(1)] assms(2) v] assms(4) [of t ip False] assms(5)
    by (simp add: fail_step_def)
  then have "view (run (record_op (run s evs) t ip False) later) ip =
      Some (t0, t + ban_time, Suc (c + failures_of ip evs))"
    by (rule run_ban_stays [OF record_inv [OF run_inv [OF assms(1)]] assms(2)]) (use assms(6) in auto)
  moreover have "inv (run (record_op (run s evs) t ip False) later)"
    using assms(1) by (intro run_inv record_inv)
  ultimately show ?thesis using banned_view [OF _ assms(2)] assms(7) by simp
qed

text \<open>An address with fewer failures than the limit is never banned.\<close>

lemma run_no_ban:
  assumes "inv s" "ip_ok ip" "view s ip = None \<or> (\<exists>ws c. view s ip = Some (ws, 0, c) \<and> c \<le> k)"
    and "k + length (filter (\<lambda>(t, i, ok). i = ip \<and> \<not> ok) evs) < limit"
  shows "view (run s evs) ip = None \<or> (\<exists>ws c. view (run s evs) ip = Some (ws, 0, c))"
  using assms
proof (induction evs arbitrary: s k)
  case (Cons ev evs)
  obtain t i ok where ev: "ev = (t, i, ok)" by (cases ev)
  note 2 = Cons.IH Cons.prems [unfolded ev]
  have "view (record_op s t i ok) ip = None \<or>
      (\<exists>ws c. view (record_op s t i ok) ip = Some (ws, 0, c) \<and> c \<le> (if i = ip \<and> \<not> ok then Suc k else k))"
  proof (cases "i = ip")
    case False
    then show ?thesis using record_other [OF 2(2,3), of i t ok] 2(4) by auto
  next
    case True
    show ?thesis
    proof (cases ok)
      case success: True
      then show ?thesis using record_success [OF 2(2,3), of t] True by simp
    next
      case fail: False
      then have lim: "Suc k < limit \<or> Suc k = limit \<and> False" using 2(5) True by auto
      show ?thesis
        using record_known [OF 2(2,3), of _ t] record_new [OF 2(2,3), of t] 2(4) fail True lim
        by (cases "view s ip") (auto simp: fail_step_def split: if_splits)
    qed
  qed
  moreover have "(if i = ip \<and> \<not> ok then Suc k else k) + length (filter (\<lambda>(t, i, ok). i = ip \<and> \<not> ok) evs) < limit"
    using 2(5) by (auto split: if_splits)
  ultimately show ?case
    using Cons.IH [OF record_inv [OF 2(2)] 2(3), where k = "if i = ip \<and> \<not> ok then Suc k else k"] by (simp add: ev)
qed auto

text \<open>Once the count is at the limit, the ban lasts at least \<open>ban_time\<close> from the first of the attempts.\<close>

lemma run_reaches:
  assumes "inv s" "ip_ok ip" "view s ip = Some (t0, bu, c)"
    and "\<And>t i ok. (t, i, ok) \<in> set evs \<Longrightarrow> t1 \<le> t \<and> t < t0 + window \<and> (i = ip \<longrightarrow> \<not> ok)"
    and "limit \<le> c \<longrightarrow> t1 + ban_time \<le> bu" "limit \<le> c + failures_of ip evs"
  shows "\<exists>bu'. view (run s evs) ip = Some (t0, bu', c + failures_of ip evs) \<and> t1 + ban_time \<le> bu'"
  using assms
proof (induction evs arbitrary: s bu c)
  case (Cons ev evs)
  obtain t i ok where ev: "ev = (t, i, ok)" by (cases ev)
  note 2 = Cons.IH Cons.prems [unfolded ev]
  have t: "t1 \<le> t" "t < t0 + window" "i = ip \<longrightarrow> \<not> ok" using 2(5) [of t i ok] by auto
  let ?c = "if i = ip then Suc c else c"
  have step: "\<exists>bu1. view (record_op s t i ok) ip = Some (t0, bu1, ?c) \<and> (limit \<le> ?c \<longrightarrow> t1 + ban_time \<le> bu1)"
  proof (cases "i = ip")
    case True
    then show ?thesis using record_known [OF 2(2-4), of t] t 2(6) by (auto simp: fail_step_def)
  next
    case False
    have "\<not> stale_entry window t (t0, bu, c)" using t by (auto simp: stale_entry_def max_def)
    then show ?thesis using record_other [OF 2(2,3), of i t ok] False 2(4,6) by auto
  qed
  then obtain bu1 where "view (record_op s t i ok) ip = Some (t0, bu1, ?c)" "limit \<le> ?c \<longrightarrow> t1 + ban_time \<le> bu1" by blast
  from Cons.IH [OF record_inv [OF 2(2)] 2(3) this(1) 2(5) this(2)] 2(7) show ?case
    by (auto simp: failures_of_def ev split: if_splits)
qed (simp add: failures_of_def)

text \<open>
  An address below the limit whose window elapsed starts a new one with its next failure: from then on only that
  failure and those after it count.
\<close>

lemma run_new_window:
  assumes "inv s" "ip_ok ip" "view s ip = Some (t0, 0, c)"
    and "\<And>t' i ok. (t', i, ok) \<in> set evs1 \<Longrightarrow> t' < t0 + window \<and> (i = ip \<longrightarrow> \<not> ok)"
    and "c + failures_of ip evs1 < limit" "t0 + window \<le> t"
    and "\<And>t' i ok. (t', i, ok) \<in> set evs2 \<Longrightarrow> t \<le> t' \<and> t' < t + window \<and> (i = ip \<longrightarrow> \<not> ok)"
    and "0 \<le> now" "now < t + ban_time"
  shows "banned (run s (evs1 @ (t, ip, False) # evs2)) now ip \<longleftrightarrow> limit \<le> 1 + failures_of ip evs2"
proof -
  have eq: "length (filter (\<lambda>(t, i, ok). i = ip \<and> \<not> ok) evs) = failures_of ip evs"
    if "\<forall>(t', i, ok) \<in> set evs. i = ip \<longrightarrow> \<not> ok" for evs :: "attempt list"
    unfolding failures_of_def by (rule arg_cong [where f = length], rule filter_cong) (use that in auto)
  have "\<forall>(t', i, ok) \<in> set evs1. i = ip \<longrightarrow> \<not> ok" "\<forall>(t', i, ok) \<in> set evs2. i = ip \<longrightarrow> \<not> ok"
    using assms(4,7) by fast+
  note n1 = eq [OF this(1)] and n2 = eq [OF this(2)]
  let ?s1 = "run s evs1" and ?s2 = "record_op (run s evs1) t ip False"
  have inv1: "inv ?s1" and inv2: "inv ?s2" and inv3: "inv (run ?s2 evs2)" using assms(1) by (auto intro: run_inv record_inv)
  obtain bu' where "view ?s1 ip = Some (t0, bu', c + failures_of ip evs1)"
    using run_counts [OF assms(1-3,4)] by blast
  moreover have "view ?s1 ip = None \<or> (\<exists>ws c. view ?s1 ip = Some (ws, 0, c))"
    by (rule run_no_ban [OF assms(1,2), of c]) (use assms(3,5) n1 in auto)
  ultimately have "view ?s1 ip = Some (t0, 0, c + failures_of ip evs1)" by auto
  from record_known [OF inv1 assms(2) this, of t] have v2: "view ?s2 ip = Some (t, if limit \<le> 1 then t + ban_time else 0, 1)"
    using assms(6) by (simp add: fail_step_def)
  show ?thesis
  proof (cases "limit \<le> 1 + failures_of ip evs2")
    case True
    from run_reaches [OF inv2 assms(2) v2, of evs2 t] assms(7) True obtain b where
      "view (run ?s2 evs2) ip = Some (t, b, 1 + failures_of ip evs2)" "t + ban_time \<le> b" by auto
    then show ?thesis using banned_view [OF inv3 assms(2), of now] assms(9) True by auto
  next
    case False
    have "view (run ?s2 evs2) ip = None \<or> (\<exists>ws c. view (run ?s2 evs2) ip = Some (ws, 0, c))"
      by (rule run_no_ban [OF inv2 assms(2), of 1]) (use v2 False n2 in auto)
    then show ?thesis using banned_view [OF inv3 assms(2), of now] assms(8) False by auto
  qed
qed

end

section \<open>The zone meets the contract\<close>

definition entry_of :: "throttle_node \<Rightarrow> throttle_entry" where
  "entry_of n = (window_start n, banned_until n, count n)"

definition throttle_view :: "ngx_lib \<Rightarrow> 'p throttle_zone \<Rightarrow> bytes \<Rightarrow> throttle_entry option" where
  "throttle_view ngx z ip = map_option entry_of (zone_find (ngx_crc32_short ngx) z ip)"

text \<open>The operations on an existing zone, with the log left aside.\<close>

definition zone_record :: "ngx_lib \<Rightarrow> 'p ngx_shm \<Rightarrow> nat \<Rightarrow> time_t \<Rightarrow> time_t \<Rightarrow> 'p throttle_zone \<Rightarrow> time_t \<Rightarrow> bytes
    \<Rightarrow> bool \<Rightarrow> 'p throttle_zone" where
  "zone_record ngx shm limit window ban_time z now ip ok =
     the (fst (throttle_record ngx shm now ip (Some z) ok limit window ban_time))"

definition zone_banned :: "ngx_lib \<Rightarrow> 'p throttle_zone \<Rightarrow> time_t \<Rightarrow> bytes \<Rightarrow> bool" where
  "zone_banned ngx z now ip \<longleftrightarrow> fst (throttle_is_banned ngx now ip (Some z)) = NGX_DECLINED"

text \<open>\<open>thinned\<close>: some stale entries are gone, everything else is as before.\<close>

definition thinned :: "ngx_lib \<Rightarrow> time_t \<Rightarrow> time_t \<Rightarrow> 'p throttle_zone \<Rightarrow> 'p throttle_zone \<Rightarrow> bool" where
  "thinned ngx window now z z' \<longleftrightarrow> (\<forall>ip. length ip < 2 ^ 16 \<longrightarrow>
     throttle_view ngx z' ip = throttle_view ngx z ip \<or>
     (\<exists>e. throttle_view ngx z ip = Some e \<and> stale_entry window now e \<and> throttle_view ngx z' ip = None))"

lemma thinned_refl [simp]: "thinned ngx window now z z"
  by (simp add: thinned_def)

lemma thinned_trans: "thinned ngx w now z1 z2 \<Longrightarrow> thinned ngx w now z2 z3 \<Longrightarrow> thinned ngx w now z1 z3"
  unfolding thinned_def by (metis option.distinct(1))

lemma thinned_None: "thinned ngx w now z z' \<Longrightarrow> length ip < 2 ^ 16 \<Longrightarrow> throttle_view ngx z ip = None \<Longrightarrow>
    throttle_view ngx z' ip = None"
  unfolding thinned_def by (metis option.distinct(1))

lemma lookup_view:
  assumes "zone_ok (ngx_crc32_short ngx) live z" "length ip < 2 ^ 16"
  obtains (new) "throttle_lookup z (ngx_crc32_short ngx ip) ip = None" "throttle_view ngx z ip = None"
      "\<And>m. m \<in> ran (nodes z) \<Longrightarrow> data m \<noteq> ip"
  | (known) a n where "throttle_lookup z (ngx_crc32_short ngx ip) ip = Some a" "nodes z a = Some n" "data n = ip"
      "throttle_view ngx z ip = Some (entry_of n)"
proof (cases "throttle_lookup z (ngx_crc32_short ngx ip) ip")
  case None
  then have "throttle_view ngx z ip = None" "\<And>m. m \<in> ran (nodes z) \<Longrightarrow> data m \<noteq> ip"
    using zone_lookup_None [OF assms] by (auto simp: throttle_lookup_def throttle_view_def zone_find_def)
  then show ?thesis using new None by blast
next
  case (Some a)
  then obtain n where n: "nodes z a = Some n" "data n = ip"
    using zone_lookup_iff [OF assms] by (auto simp: throttle_lookup_def)
  then have "throttle_view ngx z ip = Some (entry_of n)"
    using Some by (simp add: throttle_lookup_def throttle_view_def zone_find_def)
  then show ?thesis using known Some n by blast
qed

lemma count_entry:
  "entry_of (throttle_count now limit window ban_time n) = fail_step limit window ban_time now (entry_of n)"
  "data (throttle_count now limit window ban_time n) = data n"
  "node_key (throttle_count now limit window ban_time n) = node_key n"
  "len (throttle_count now limit window ban_time n) = len n"
  by (auto simp: throttle_count_def fail_step_def entry_of_def Let_def)

lemma fill_ok: "length ip \<le> 65535 \<Longrightarrow> node_ok (ngx_crc32_short ngx) (throttle_fill ngx ip now)"
  by (simp add: node_ok_def throttle_fill_def unat_of_nat)

lemma failure_zone:
  assumes ok: "zone_ok (ngx_crc32_short ngx) live z" and n: "nodes z a = Some n"
    and run: "throttle_failure ngx shm now ip limit window ban_time a z = (z', log)"
  shows "zone_ok (ngx_crc32_short ngx) live z'"
    and "length s < 2 ^ 16 \<Longrightarrow> throttle_view ngx z' s =
      (if s = data n then Some (fail_step limit window ban_time now (entry_of n)) else throttle_view ngx z s)"
proof -
  have z': "z' = z\<lparr>nodes := (nodes z)(a \<mapsto> throttle_count now limit window ban_time n)\<rparr>"
    using run n by (auto simp: throttle_failure_def Let_def)
  show "zone_ok (ngx_crc32_short ngx) live z'"
    unfolding z' by (rule update_node_ok [OF ok n]) (simp_all add: count_entry)
  show "length s < 2 ^ 16 \<Longrightarrow> throttle_view ngx z' s =
      (if s = data n then Some (fail_step limit window ban_time now (entry_of n)) else throttle_view ngx z s)"
    unfolding z' throttle_view_def by (subst find_update_node [OF ok n]) (simp_all add: count_entry)
qed

context ngx_shm_api
begin

lemma unlink_view:
  assumes "zone_ok (ngx_crc32_short ngx) live z" "nodes z a = Some n" "length s < 2 ^ 16"
  shows "throttle_view ngx (shm_unlink shm a z) s = (if s = data n then None else throttle_view ngx z s)"
  by (simp add: throttle_view_def find_unlink [OF assms])

lemma evict_walk_thins:
  assumes "zone_ok (ngx_crc32_short ngx) live z" "distinct as" "set as \<subseteq> dom (nodes z)"
  shows "zone_ok (ngx_crc32_short ngx) live (evict_walk shm now (max window 3600) as z) \<and>
     thinned ngx window now z (evict_walk shm now (max window 3600) as z)"
  using assms
proof (induction as arbitrary: z)
  case (Cons a as)
  then obtain n where n: "nodes z a = Some n" by auto
  let ?stale = "banned_until n \<le> now \<and> window_start n + max window 3600 \<le> now"
  let ?z = "if ?stale then shm_unlink shm a z else z"
  have eq: "evict_walk shm now (max window 3600) (a # as) z = evict_walk shm now (max window 3600) as ?z"
    by (simp add: n Let_def)
  have ok: "zone_ok (ngx_crc32_short ngx) live ?z" using unlink_ok [OF Cons.prems(1)] Cons.prems n by auto
  have "length (data n) < 2 ^ 16 \<longrightarrow> throttle_view ngx z (data n) = Some (entry_of n)"
    using zone_find_iff [OF Cons.prems(1), of "data n"] n by (auto simp: throttle_view_def ran_def)
  then have "thinned ngx window now z ?z"
    using unlink_view [OF Cons.prems(1) n] by (auto simp: thinned_def stale_entry_def entry_of_def)
  moreover have "set as \<subseteq> dom (nodes ?z)" using Cons.prems by (auto simp: shm_unlink_def)
  ultimately show ?case
    using Cons.IH [OF ok] Cons.prems(2) thinned_trans unfolding eq by fastforce
qed simp

lemma evict_stale_thins:
  assumes "zone_ok (ngx_crc32_short ngx) live z"
  shows "zone_ok (ngx_crc32_short ngx) live (throttle_evict_stale shm z now window m)"
    and "thinned ngx window now z (throttle_evict_stale shm z now window m)"
proof -
  have "distinct (take m (rev (queue z)))" "set (take m (rev (queue z))) \<subseteq> dom (nodes z)"
    using assms by (auto simp: zone_ok_def dest: in_set_takeD)
  from evict_walk_thins [OF assms this, of now window]
  show "zone_ok (ngx_crc32_short ngx) live (throttle_evict_stale shm z now window m)"
    "thinned ngx window now z (throttle_evict_stale shm z now window m)"
    by (auto simp: throttle_evict_stale_def max_def not_less split: if_splits)
qed

lemma alloc_cases:
  assumes "zone_ok (ngx_crc32_short ngx) live z" "throttle_alloc shm now window sz z = (r, z')"
  obtains (full) "r = None" "zone_ok (ngx_crc32_short ngx) live z'" "thinned ngx window now z z'"
  | (room) a z1 p where "r = Some a" "z' = z1\<lparr>pool := p\<rparr>" "zone_ok (ngx_crc32_short ngx) live z1"
      "thinned ngx window now z z1" "slab_alloc shm (pool z1) sz = Some (a, p)"
proof -
  let ?z1 = "throttle_evict_stale shm z now window 8"
  let ?z2 = "throttle_evict_stale shm ?z1 now window 512"
  note ok1 = evict_stale_thins [OF assms(1), where now = now and window = window and m = 8]
  note ok2 = evict_stale_thins [OF ok1(1), where now = now and window = window and m = 512]
  show ?thesis
  proof (cases "slab_alloc shm (pool ?z1) sz")
    case (Some ap)
    then show ?thesis using assms(2) ok1 room [of "fst ap" "snd ap" ?z1]
      by (auto simp: throttle_alloc_def Let_def split: prod.splits)
  next
    case None
    then show ?thesis using assms(2) ok2 thinned_trans [OF ok1(2) ok2(2)] full room [of _ _ ?z2]
      by (auto simp: throttle_alloc_def Let_def split: option.splits)
  qed
qed

text \<open>Counting a failure on a node that was just linked, and on a known one that was moved to the front.\<close>

lemma failure_on_new:
  assumes ok: "zone_ok (ngx_crc32_short ngx) live z1" and ip: "ip_ok ip" and none: "throttle_view ngx z1 ip = None"
    and al: "slab_alloc shm (pool z1) sz = Some (a, p)"
    and f: "throttle_failure ngx shm now ip limit window ban_time a (shm_link shm a (throttle_fill ngx ip now) (z1\<lparr>pool := p\<rparr>)) = (z', log)"
  shows "zone_ok (ngx_crc32_short ngx) live z'"
    and "length s < 2 ^ 16 \<Longrightarrow> throttle_view ngx z' s =
      (if s = ip then Some (fail_step limit window ban_time now (now, 0, 0)) else throttle_view ngx z1 s)"
proof -
  let ?n = "throttle_fill ngx ip now"
  let ?z = "shm_link shm a ?n (z1\<lparr>pool := p\<rparr>)"
  have len: "length ip < 2 ^ 16" using ip by (simp add: ip_ok_def)
  have fresh: "\<And>m. m \<in> ran (nodes z1) \<Longrightarrow> data m \<noteq> data ?n"
    using zone_find_iff [OF ok len] none by (auto simp: throttle_view_def throttle_fill_def)
  have nok: "node_ok (ngx_crc32_short ngx) ?n" using ip by (intro fill_ok) (simp add: ip_ok_def)
  have okz: "zone_ok (ngx_crc32_short ngx) live ?z" using link_ok(1) [OF ok nok fresh al] .
  have n: "nodes ?z a = Some ?n" by (simp add: shm_link_def Let_def)
  show "zone_ok (ngx_crc32_short ngx) live z'" by (rule failure_zone(1) [OF okz n f])
  show "throttle_view ngx z' s = (if s = ip then Some (fail_step limit window ban_time now (now, 0, 0)) else throttle_view ngx z1 s)"
    if len: "length s < 2 ^ 16"
    using failure_zone(2) [OF okz n f len] find_link [OF ok nok fresh al len]
    by (simp add: throttle_view_def throttle_fill_def entry_of_def)
qed

lemma failure_on_known:
  assumes ok: "zone_ok (ngx_crc32_short ngx) live z" and n: "nodes z a = Some n"
    and f: "throttle_failure ngx shm now ip limit window ban_time a (z\<lparr>queue := a # remove1 a (queue z)\<rparr>) = (z', log)"
  shows "zone_ok (ngx_crc32_short ngx) live z'"
    and "length s < 2 ^ 16 \<Longrightarrow> throttle_view ngx z' s =
      (if s = data n then Some (fail_step limit window ban_time now (entry_of n)) else throttle_view ngx z s)"
proof -
  let ?z = "z\<lparr>queue := a # remove1 a (queue z)\<rparr>"
  have okq: "zone_ok (ngx_crc32_short ngx) live ?z" using requeue_ok [OF ok] n by auto
  have nq: "nodes ?z a = Some n" using n by simp
  show "zone_ok (ngx_crc32_short ngx) live z'" by (rule failure_zone(1) [OF okq nq f])
  show "length s < 2 ^ 16 \<Longrightarrow> throttle_view ngx z' s =
      (if s = data n then Some (fail_step limit window ban_time now (entry_of n)) else throttle_view ngx z s)"
    using failure_zone(2) [OF okq nq f] by (simp add: throttle_view_def)
qed

text \<open>The effect of recording an attempt, one case per branch of the function.\<close>

lemma record_effect:
  fixes now window ban_time :: time_t and limit :: nat and ip :: bytes and success :: bool
  assumes ok: "zone_ok (ngx_crc32_short ngx) live z"
  defines "z' \<equiv> zone_record ngx shm limit window ban_time z now ip success"
  obtains (skip) "\<not> ip_ok ip" "z' = z"
  | (clear) "ip_ok ip" "success" "zone_ok (ngx_crc32_short ngx) live z'"
      "\<And>s. length s < 2 ^ 16 \<Longrightarrow> throttle_view ngx z' s = (if s = ip then None else throttle_view ngx z s)"
  | (known) e where "ip_ok ip" "\<not> success" "zone_ok (ngx_crc32_short ngx) live z'" "throttle_view ngx z ip = Some e"
      "\<And>s. length s < 2 ^ 16 \<Longrightarrow> throttle_view ngx z' s =
        (if s = ip then Some (fail_step limit window ban_time now e) else throttle_view ngx z s)"
  | (full) "ip_ok ip" "\<not> success" "zone_ok (ngx_crc32_short ngx) live z'" "throttle_view ngx z ip = None"
      "thinned ngx window now z z'"
  | (new) z1 where "ip_ok ip" "\<not> success" "zone_ok (ngx_crc32_short ngx) live z'" "throttle_view ngx z ip = None"
      "thinned ngx window now z z1"
      "\<And>s. length s < 2 ^ 16 \<Longrightarrow> throttle_view ngx z' s =
        (if s = ip then Some (fail_step limit window ban_time now (now, 0, 0)) else throttle_view ngx z1 s)"
proof (cases "ip_ok ip")
  case False
  then have "z' = z" by (auto simp: z'_def zone_record_def throttle_record_def ip_ok_def)
  then show ?thesis using skip False by blast
next
  case ip: True
  then have len: "length ip < 2 ^ 16" and ne: "ip \<noteq> []" "\<not> 65535 < length ip" by (auto simp: ip_ok_def)
  note defs = z'_def zone_record_def throttle_record_def
  from ok len show ?thesis
  proof (cases rule: lookup_view)
    case lnew: new
    show ?thesis
    proof (cases success)
      case True
      then have "z' = z" using lnew ne by (simp add: defs)
      then show ?thesis using clear [OF ip True] ok lnew(2) by auto
    next
      case False
      obtain r z2 where al: "throttle_alloc shm now window (throttle_data_offset shm + length ip) z = (r, z2)"
        by fastforce
      from ok al show ?thesis
      proof (cases rule: alloc_cases)
        case room_none: full
        then have "z' = z2" using lnew ne False al by (simp add: defs Let_def)
        then show ?thesis using full [OF ip False] room_none lnew(2) by simp
      next
        case (room a z1 p)
        have none: "throttle_view ngx z1 ip = None" using thinned_None [OF room(4) len lnew(2)] .
        have "z' = fst (throttle_failure ngx shm now ip limit window ban_time a (shm_link shm a (throttle_fill ngx ip now) (z1\<lparr>pool := p\<rparr>)))"
          using lnew ne False al room(1,2) by (simp add: defs Let_def case_prod_beta)
        then obtain log where f: "throttle_failure ngx shm now ip limit window ban_time a
            (shm_link shm a (throttle_fill ngx ip now) (z1\<lparr>pool := p\<rparr>)) = (z', log)" by (metis surjective_pairing)
        note n = failure_on_new [OF room(3) ip none room(5) f]
        show ?thesis by (rule new [OF ip False n(1) lnew(2) room(4) n(2)])
      qed
    qed
  next
    case (known a n)
    show ?thesis
    proof (cases success)
      case True
      then have "z' = shm_unlink shm a z" using known ne by (simp add: defs)
      then show ?thesis
        using clear [OF ip True] unlink_ok [OF ok] unlink_view [OF ok known(2)] known(2,3) by auto
    next
      case False
      have "z' = fst (throttle_failure ngx shm now ip limit window ban_time a (z\<lparr>queue := a # remove1 a (queue z)\<rparr>))"
        using known ne False by (simp add: defs Let_def case_prod_beta)
      then obtain log where f: "throttle_failure ngx shm now ip limit window ban_time a
          (z\<lparr>queue := a # remove1 a (queue z)\<rparr>) = (z', log)" by (metis surjective_pairing)
      note k = failure_on_known [OF ok known(2) f]
      show ?thesis using that(3) [OF ip False k(1) known(4)] k(2) known(3) by simp
    qed
  qed
qed

lemma throttle_store:
  "failure_throttle (zone_record ngx shm limit window ban_time) (zone_banned ngx) (throttle_view ngx)
     (zone_ok (ngx_crc32_short ngx) live) limit window ban_time"
proof
  fix z :: "'p throttle_zone" and now ip ok
  assume inv: "zone_ok (ngx_crc32_short ngx) live z"
  let ?z = "zone_record ngx shm limit window ban_time z now ip"
  show "zone_ok (ngx_crc32_short ngx) live (?z ok)"
    using inv by (cases rule: record_effect [where limit = limit and window = window and ban_time = ban_time and now = now and ip = ip and success = ok]) (use inv in auto)
  { fix e assume ip: "ip_ok ip" "throttle_view ngx z ip = Some e"
    from inv show "throttle_view ngx (?z False) ip = Some (fail_step limit window ban_time now e)"
      by (cases rule: record_effect [where limit = limit and window = window and ban_time = ban_time and now = now and ip = ip and success = False])
        (use ip in \<open>auto simp: ip_ok_def\<close>) }
  { assume ip: "ip_ok ip" "throttle_view ngx z ip = None"
    from inv show "throttle_view ngx (?z False) ip \<in> {None, Some (fail_step limit window ban_time now (now, 0, 0))}"
      by (cases rule: record_effect [where limit = limit and window = window and ban_time = ban_time and now = now and ip = ip and success = False])
        (use ip in \<open>auto simp: ip_ok_def intro: thinned_None\<close>) }
  { assume ip: "ip_ok ip"
    from inv show "throttle_view ngx (?z True) ip = None"
      by (cases rule: record_effect [where limit = limit and window = window and ban_time = ban_time and now = now and ip = ip and success = True])
        (use ip in \<open>auto simp: ip_ok_def\<close>) }
  { fix ip' assume ip: "ip_ok ip'" "ip' \<noteq> ip"
    from inv show "throttle_view ngx (?z ok) ip' = throttle_view ngx z ip' \<or>
        (\<exists>e. throttle_view ngx z ip' = Some e \<and> stale_entry window now e \<and> throttle_view ngx (?z ok) ip' = None)"
      by (cases rule: record_effect [where limit = limit and window = window and ban_time = ban_time and now = now and ip = ip and success = ok])
        (use ip in \<open>auto simp: ip_ok_def thinned_def\<close>) }
  { assume ip: "ip_ok ip"
    then have len: "length ip < 2 ^ 16" by (auto simp: ip_ok_def)
    from inv len show "zone_banned ngx z now ip \<longleftrightarrow> (\<exists>ws bu c. throttle_view ngx z ip = Some (ws, bu, c) \<and> now < bu)"
      by (cases rule: lookup_view)
        (use ip in \<open>auto simp: zone_banned_def throttle_is_banned_def ip_ok_def Let_def entry_of_def\<close>) }
qed

end

interpretation ref_throttle: failure_throttle "zone_record ngx_ref shm_ref 3 60 300" "zone_banned ngx_ref"
  "throttle_view ngx_ref" "zone_ok (ngx_crc32_short ngx_ref) live_ref" 3 60 300
  by (rule ref_shm.throttle_store)

section \<open>Properties\<close>

text \<open>
  C17: recording an attempt does exactly what the contract says on every branch: a success clears the
  entry of the address, a failure counts in it (restarting an elapsed window, setting the ban at
  the limit) or creates it, a full zone leaves the address uncounted; of the other addresses only
  entries that are neither banned nor inside their window disappear; the zone invariant is kept.
\<close>

theorem throttle_record_refines:
  assumes "ngx_shm_api shm live" "zone_ok (ngx_crc32_short ngx) live z" "ip_ok ip" "ip_ok ip'"
    and "z' = zone_record ngx shm limit window ban_time z now ip success"
  shows "zone_ok (ngx_crc32_short ngx) live z' \<and>
     (if ip' = ip
      then (if success then throttle_view ngx z' ip = None
            else case throttle_view ngx z ip of
              Some e \<Rightarrow> throttle_view ngx z' ip = Some (fail_step limit window ban_time now e)
            | None \<Rightarrow> throttle_view ngx z' ip \<in> {None, Some (fail_step limit window ban_time now (now, 0, 0))})
      else throttle_view ngx z' ip' = throttle_view ngx z ip' \<or>
           throttle_view ngx z' ip' = None \<and> (\<exists>e. throttle_view ngx z ip' = Some e \<and> stale_entry window now e))"
proof -
  note store = ngx_shm_api.throttle_store [OF assms(1), where limit = limit and window = window and ban_time = ban_time]
  note known = failure_throttle.record_known [OF store assms(2,3), of _ now]
    and new = failure_throttle.record_new [OF store assms(2,3), of now]
    and clear = failure_throttle.record_success [OF store assms(2,3), of now]
    and other = failure_throttle.record_other [OF store assms(2,4), of ip now success]
  show ?thesis
  proof (cases "ip' = ip")
    case True
    then show ?thesis
      using failure_throttle.record_inv [OF store assms(2)] known new clear unfolding assms(5)
      by (cases success; cases "throttle_view ngx z ip"; simp)
  next
    case False
    then show ?thesis
      using failure_throttle.record_inv [OF store assms(2)] other unfolding assms(5) by (simp only: if_False) blast
  qed
qed

text \<open>
  C18: an address that fails often enough is banned.  If its entry has counted \<open>c\<close> failures since the
  window started, and further failures within the window bring the count to the limit with the
  last one at time \<open>t\<close>, then whatever other addresses do meanwhile and afterwards, the address is
  refused at every time before \<open>t + ban_time\<close>.
\<close>

theorem throttle_bans:
  assumes "ngx_shm_api shm live" "zone_ok (ngx_crc32_short ngx) live z" "ip_ok ip"
    and "throttle_view ngx z ip = Some (t0, bu, c)"
    and "\<forall>(t', i, ok) \<in> set (evs @ [(t, ip, False)]). t' < t0 + window \<and> (i = ip \<longrightarrow> \<not> ok)"
    and "limit \<le> c + failures_of ip evs + 1"
    and "\<forall>(t', i, ok) \<in> set later. t' < t + ban_time \<and> i \<noteq> ip"
    and "now < t + ban_time"
  shows "fst (throttle_is_banned ngx now ip (Some (attempts_run (zone_record ngx shm limit window ban_time) z
       (evs @ (t, ip, False) # later)))) = NGX_DECLINED"
proof -
  note store = ngx_shm_api.throttle_store [OF assms(1), where limit = limit and window = window and ban_time = ban_time]
  show ?thesis
    using failure_throttle.run_bans [OF store assms(2-4) _ assms(6) _ assms(8), of later] assms(5,7)
    unfolding zone_banned_def by fastforce
qed

text \<open>
  C19: no false alarm.  An address that is not in the zone and fails fewer times than the limit is
  never refused, whatever other addresses do and whenever the attempts happen.
\<close>

theorem throttle_no_false_ban:
  assumes "ngx_shm_api shm live" "zone_ok (ngx_crc32_short ngx) live z" "ip_ok ip" "throttle_view ngx z ip = None"
    and "length (filter (\<lambda>(t, i, ok). i = ip \<and> \<not> ok) evs) < limit" "0 \<le> now"
  shows "fst (throttle_is_banned ngx now ip (Some (attempts_run (zone_record ngx shm limit window ban_time) z evs)))
     = NGX_OK"
proof -
  note store = ngx_shm_api.throttle_store [OF assms(1), where limit = limit and window = window and ban_time = ban_time]
  let ?z = "attempts_run (zone_record ngx shm limit window ban_time) z evs"
  have "throttle_view ngx ?z ip = None \<or> (\<exists>ws c. throttle_view ngx ?z ip = Some (ws, 0, c))"
    using failure_throttle.run_no_ban [OF store assms(2,3), of 0 evs] assms(4,5) by simp
  then have "\<not> zone_banned ngx ?z now ip"
    using failure_throttle.banned_view [OF store failure_throttle.run_inv [OF store assms(2)] assms(3)] assms(6) by auto
  then show ?thesis
    by (auto simp: zone_banned_def throttle_is_banned_def Let_def split: option.splits if_splits)
qed

text \<open>A zone with room for four addresses, for concrete runs.\<close>

definition sample_throttle :: "slab_ref throttle_zone" where
  "sample_throttle = empty_zone (pool_ref 4)"

lemma sample_throttle_ok: "zone_ok (ngx_crc32_short ngx_ref) live_ref sample_throttle"
  by (simp add: sample_throttle_def empty_zone_ok)

lemmas throttle_eval = zone_record_def throttle_record_def throttle_lookup_def throttle_alloc_def
  throttle_evict_stale_def throttle_fill_def throttle_failure_def throttle_count_def throttle_data_offset_def
  sample_throttle_def empty_zone_def pool_ref_def shm_ref_def ngx_ref_def shm_link_def shm_unlink_def
  rbtree_insert_def Let_def throttle_view_def zone_find_def entry_of_def throttle_is_banned_def

lemma sample_throttle_view: "throttle_view ngx_ref sample_throttle ip = None"
  by (simp add: throttle_eval)

text \<open>The zone after one failure of \<open>10.0.0.9\<close> at time 1000, with limit 3, window 60 and ban 300.\<close>

definition sample_failed :: "slab_ref throttle_zone" where
  "sample_failed = zone_record ngx_ref shm_ref 3 60 300 sample_throttle 1000 ''10.0.0.9'' False"

lemma sample_failed_view: "throttle_view ngx_ref sample_failed ''10.0.0.9'' = Some (1000, 0, 1)"
  by (simp add: sample_failed_def throttle_eval)

lemma sample_failed_ok: "zone_ok (ngx_crc32_short ngx_ref) live_ref sample_failed"
  unfolding sample_failed_def by (rule ref_throttle.record_inv [OF sample_throttle_ok])

theorem throttle_record_refines_witness:
  "throttle_view ngx_ref (zone_record ngx_ref shm_ref 3 60 300 sample_failed 1010 ''10.0.0.9'' False) ''10.0.0.9'' =
     Some (1000, 0, 2)"
  using throttle_record_refines [OF ref_shm.ngx_shm_api_axioms sample_failed_ok, of "''10.0.0.9''" "''10.0.0.9''"
      _ 3 60 300 1010 False]
  by (simp add: sample_failed_view ip_ok_def fail_step_def)

theorem throttle_bans_witness:
  "fst (throttle_is_banned ngx_ref 1300 ''10.0.0.9'' (Some (attempts_run (zone_record ngx_ref shm_ref 3 60 300) sample_failed
     [(1010, ''10.0.0.9'', False), (1015, ''10.0.0.7'', False), (1020, ''10.0.0.9'', False), (1200, ''10.0.0.7'', True)])))
   = NGX_DECLINED"
  using throttle_bans [OF ref_shm.ngx_shm_api_axioms sample_failed_ok _ sample_failed_view,
      of "[(1010, ''10.0.0.9'', False), (1015, ''10.0.0.7'', False)]" 1020 60 3 "[(1200, ''10.0.0.7'', True)]" 300 1300]
  by (simp add: ip_ok_def failures_of_def)

theorem throttle_no_false_ban_witness:
  "fst (throttle_is_banned ngx_ref 1100 ''10.0.0.9'' (Some (attempts_run (zone_record ngx_ref shm_ref 3 60 300) sample_throttle
     [(1010, ''10.0.0.9'', False), (1015, ''10.0.0.9'', True), (1020, ''10.0.0.9'', False)]))) = NGX_OK"
  using throttle_no_false_ban [OF ref_shm.ngx_shm_api_axioms sample_throttle_ok _ sample_throttle_view,
      of "''10.0.0.9''" "[(1010, ''10.0.0.9'', False), (1015, ''10.0.0.9'', True), (1020, ''10.0.0.9'', False)]" 3 1100 60 300]
  by (simp add: ip_ok_def)



end
