(* ===== verification/Loc_Conf.thy ===== *)
theory Loc_Conf
  imports Nonce_Store Throttle
begin

text \<open>
  The data that the request handlers of \<open>ngx_http_pgp_auth_module.c\<close> work on: the configuration of
  a location after merging, the parts of a request they read, and the state of a worker process
  with the shared zones.
\<close>

section \<open>The location configuration\<close>

text \<open>
  \<open>ngx_http_pgp_auth_loc_conf_t\<close>.  The zone pointers only say whether there is a zone; the
  zones themselves and the per-worker cache of the revocation list (\<open>revoc_mtime\<close>,
  \<open>revoc_cache\<close>) are mutable and part of \<open>worker\<close> below.
\<close>

datatype samesite = SAMESITE_LAX | SAMESITE_STRICT | SAMESITE_NONE

record loc_conf =
  enable :: bool
  keyring :: bytes
  challenge_timeout :: time_t
  session_timeout :: time_t
  cookie_secure :: bool
  cookie_host_prefix :: bool
  cookie_samesite :: samesite
  bind_ip :: bool
  bind_ua :: bool
  has_nonce_zone :: bool
  has_failure_zone :: bool
  failure_limit :: nat
  failure_window :: time_t
  failure_ban_time :: time_t
  nonce_backend :: nonce_conf
  revocation_list :: bytes
  revoc_fail_open :: bool
  revoc_max_size :: nat
  gpg_timeout :: int
  max_body_size :: nat
  gpg_path :: bytes
  secret :: bytes
  secret_previous :: bytes
  thread_pool :: bool

definition NGX_HTTP_PGP_COOKIE :: bytes where
  "NGX_HTTP_PGP_COOKIE = ''pgp_session''"

definition NGX_HTTP_PGP_COOKIE_HOST :: bytes where
  "NGX_HTTP_PGP_COOKIE_HOST = ''__Host-pgp_session''"

section \<open>Requests\<close>

text \<open>
  A request as the module reads it.  \<open>req_cookie name\<close> is what nginx's header parser finds for a
  cookie name; \<open>req_arg\<close> says whether the query string has the authentication argument;
  \<open>req_body\<close> are the buffers of the body, each in memory or in a file.
\<close>

datatype body_buf = In_Memory bytes | In_File nat

record request =
  addr_text :: bytes
  user_agent :: "bytes option"
  req_cookie :: "bytes \<Rightarrow> bytes option"
  req_is_main :: bool
  req_is_post :: bool
  req_args :: bytes
  req_arg :: bool
  req_content_length :: int
  req_chunked :: bool
  req_uri :: bytes
  req_body :: "body_buf list option"
  header_only :: bool

section \<open>The worker\<close>

type_synonym log = "(nat \<times> bytes) list"

record 'p worker =
  w_nonce_zone :: "'p nonce_zone"
  w_failure_zone :: "'p throttle_zone"
  w_revoc_mtime :: time_t
  w_revoc_cache :: "bytes option"
  w_log :: log

definition log_error :: "nat \<Rightarrow> bytes \<Rightarrow> 'p worker \<Rightarrow> 'p worker" where
  "log_error level msg w = w\<lparr>w_log := w_log w @ [(level, msg)]\<rparr>"

text \<open>A double-quoted field of a log line.\<close>

definition quoted :: "bytes \<Rightarrow> bytes" where
  "quoted s = [CHR 0x22] @ s @ [CHR 0x22]"

lemma log_error_simps [simp]:
  "w_nonce_zone (log_error l m w) = w_nonce_zone w" "w_failure_zone (log_error l m w) = w_failure_zone w"
  "w_revoc_mtime (log_error l m w) = w_revoc_mtime w" "w_revoc_cache (log_error l m w) = w_revoc_cache w"
  by (simp_all add: log_error_def)

section \<open>What the rest of the system answers\<close>

text \<open>The places where the request code allocates from the pool or adds a header.\<close>

datatype alloc_site = Alloc_Mac | Alloc_Session | Alloc_Set_Cookie | Alloc_Cookie_Value | Alloc_Cache_Header
  | Alloc_Location | Alloc_Chal_Payload | Alloc_Challenge | Alloc_Page | Alloc_Sec_Header nat | Alloc_Buf
  | Alloc_Body | Alloc_Result | Alloc_Task

text \<open>\<open>rv_stat\<close>: modification time and size; \<open>rv_read\<close>: the bytes read, \<open>None\<close> for an error.\<close>

record revoc_env =
  rv_stat :: "(time_t \<times> nat) option"
  rv_open_ok :: bool
  rv_alloc_ok :: bool
  rv_read :: "bytes option"

text \<open>
  Allocation, random bytes, the results of nginx's own functions, what uncleared memory for a
  verification result holds (\<open>palloc_vr\<close>), and the environments of gpg, Redis and the revocation list
  for one request.\<close>

record http_env =
  alloc_ok :: "alloc_site \<Rightarrow> bool"
  rand_nonce :: "bytes option"
  send_header_rc :: ngx_rc
  send_special_rc :: ngx_rc
  output_filter_rc :: ngx_rc
  discard_rc :: ngx_rc
  read_body_rc :: ngx_rc
  task_post_ok :: bool
  palloc_vr :: verify_result
  env_gpg :: gpg_env
  env_redis :: redis_env
  env_revoc :: revoc_env

text \<open>\<open>rc > NGX_OK\<close>: an HTTP status code.\<close>

definition above_ok :: "ngx_rc \<Rightarrow> bool" where
  "above_ok rc \<longleftrightarrow> (case rc of NGX_HTTP n \<Rightarrow> True | _ \<Rightarrow> False)"

text \<open>
  The response under construction, what was sent of it, and the codes of the calls of
  \<open>ngx_http_finalize_request\<close>.
\<close>

record response =
  rs_status :: nat
  rs_headers :: "(bytes \<times> bytes) list"
  rs_content_length :: nat
  rs_header_sent :: bool
  rs_body :: "bytes option"
  rs_final :: "ngx_rc list"
  rs_keepalive :: bool

definition push_header :: "bytes \<Rightarrow> bytes \<Rightarrow> response \<Rightarrow> response" where
  "push_header k v rs = rs\<lparr>rs_headers := rs_headers rs @ [(k, v)]\<rparr>"

definition finalize_request :: "ngx_rc \<Rightarrow> response \<Rightarrow> response" where
  "finalize_request rc rs = rs\<lparr>rs_final := rs_final rs @ [rc]\<rparr>"

end
