(* ===== verification/Revocation.thy ===== *)
theory Revocation
  imports Loc_Conf
begin

text \<open>
  The revocation list: \<open>ngx_http_pgp_fpr_eq\<close> and \<open>ngx_http_pgp_is_revoked\<close> of
  \<open>ngx_http_pgp_auth_module.c\<close>.  The file system answers through the record \<open>revoc_env\<close>; the
  contents that were read last are cached in the worker.
\<close>

section \<open>Model\<close>

definition is_blank :: "char \<Rightarrow> bool" where
  "is_blank c \<longleftrightarrow> c = SPACE \<or> c = TAB"

fun fpr_eq :: "ngx_lib \<Rightarrow> bytes \<Rightarrow> bytes \<Rightarrow> bool" where
  "fpr_eq ngx [] b = (b = [])"
| "fpr_eq ngx (x # a) b =
     (if is_blank x then fpr_eq ngx a b
      else case b of
        [] \<Rightarrow> False
      | y # b' \<Rightarrow> if ngx_tolower ngx x \<noteq> ngx_tolower ngx y then False else fpr_eq ngx a b')"

text \<open>The end of the first line: a line feed or a carriage return, whichever comes first.\<close>

definition line_end :: "ngx_lib \<Rightarrow> bytes \<Rightarrow> nat" where
  "line_end ngx s =
     (case (ngx_strlchr ngx s LF, ngx_strlchr ngx s CR) of
        (None, None) \<Rightarrow> length s
      | (None, Some cr) \<Rightarrow> cr
      | (Some lf, None) \<Rightarrow> lf
      | (Some lf, Some cr) \<Rightarrow> if cr < lf then cr else lf)"

definition trim_entry :: "bytes \<Rightarrow> bytes" where
  "trim_entry s = rev (dropWhile (\<lambda>c. is_blank c \<or> c = CR) (rev (dropWhile is_blank s)))"

definition entry_matches :: "ngx_lib \<Rightarrow> bytes \<Rightarrow> bytes \<Rightarrow> bool" where
  "entry_matches ngx fp line =
     (let e = trim_entry line in e \<noteq> [] \<and> hd e \<noteq> CHR ''#'' \<and> fpr_eq ngx e fp)"

function scan_revoked :: "ngx_lib \<Rightarrow> bytes \<Rightarrow> bytes \<Rightarrow> bool" where
  "scan_revoked ngx fp s =
     (if s = [] then False
      else let nl = line_end ngx s in
        if entry_matches ngx fp (take nl s) then True
        else scan_revoked ngx fp (drop (nl + 1) s))"
  by pat_completeness auto
termination
  by (relation "measure (\<lambda>(ngx, fp, s). length s)") auto

declare scan_revoked.simps [simp del]

text \<open>Reading the list again; \<open>None\<close> stands for the policy verdict on an unreadable list.\<close>

definition reload_list :: "ngx_lib \<Rightarrow> loc_conf \<Rightarrow> revoc_env \<Rightarrow> time_t \<Rightarrow> nat \<Rightarrow> 'p worker \<Rightarrow> bytes option \<times> 'p worker" where
  "reload_list ngx plcf env mtime sz w =
     (if \<not> rv_open_ok env then (None, w)
      else if revoc_max_size plcf \<noteq> 0 \<and> sz > revoc_max_size plcf then
        (None, log_error NGX_LOG_ERR
           (''pgp_auth: revocation list '' @ quoted (revocation_list plcf) @ '' is '' @ ngx_fmt_T ngx (int sz) @
            '' bytes, over the pgp_revocation_list_max_size limit of '' @
            ngx_fmt_T ngx (int (revoc_max_size plcf)) @
            (if revoc_fail_open plcf then '''' else '' (failing closed)'')) w)
      else if \<not> rv_alloc_ok env then (None, w)
      else case rv_read env of
        None \<Rightarrow> (None, w)
      | Some s \<Rightarrow>
          (Some (take sz s), w\<lparr>w_revoc_cache := Some (take sz s), w_revoc_mtime := mtime\<rparr>))"

definition is_revoked :: "ngx_lib \<Rightarrow> loc_conf \<Rightarrow> revoc_env \<Rightarrow> bytes \<Rightarrow> 'p worker \<Rightarrow> bool \<times> 'p worker" where
  "is_revoked ngx plcf env fp w =
     (if revocation_list plcf = [] \<or> fp = [] then (False, w)
      else let deny = (\<not> revoc_fail_open plcf) in
        case rv_stat env of
          None \<Rightarrow>
            (deny, log_error NGX_LOG_ERR
               (''pgp_auth: cannot stat revocation list '' @ quoted (revocation_list plcf) @
                (if deny then '' (failing closed)'' else '''')) w)
        | Some (mtime, sz) \<Rightarrow>
            (case (if w_revoc_cache w = None \<or> mtime \<noteq> w_revoc_mtime w
                   then reload_list ngx plcf env mtime sz w else (w_revoc_cache w, w)) of
               (None, w) \<Rightarrow> (deny, w)
             | (Some s, w) \<Rightarrow> (scan_revoked ngx fp s, w)))"

section \<open>What the list means\<close>

text \<open>The lines of a list, and the entries that name a fingerprint.\<close>

definition is_eol :: "char \<Rightarrow> bool" where
  "is_eol c \<longleftrightarrow> c = LF \<or> c = CR"

fun split_lines :: "bytes \<Rightarrow> bytes \<Rightarrow> bytes list" where
  "split_lines cur [] = [cur]"
| "split_lines cur (c # s) = (if is_eol c then cur # split_lines [] s else split_lines (cur @ [c]) s)"

definition names_fpr :: "ngx_lib \<Rightarrow> bytes \<Rightarrow> bytes \<Rightarrow> bool" where
  "names_fpr ngx fp line \<longleftrightarrow>
     (let e = trim_entry line in
      e \<noteq> [] \<and> hd e \<noteq> CHR ''#'' \<and>
      map (ngx_tolower ngx) (filter (\<lambda>c. \<not> is_blank c) e) = map (ngx_tolower ngx) fp)"

lemma fpr_eq_iff:
  "fpr_eq ngx e f \<longleftrightarrow> map (ngx_tolower ngx) (filter (\<lambda>c. \<not> is_blank c) e) = map (ngx_tolower ngx) f"
  by (induction ngx e f rule: fpr_eq.induct) (auto split: list.splits)

lemma entry_matches_iff: "entry_matches ngx fp line \<longleftrightarrow> names_fpr ngx fp line"
  by (simp add: entry_matches_def names_fpr_def fpr_eq_iff Let_def)

lemma names_fpr_Nil [simp]: "\<not> names_fpr ngx fp []"
  by (simp add: names_fpr_def trim_entry_def)

lemma split_lines_first:
  "\<forall>c \<in> set a. \<not> is_eol c \<Longrightarrow> split_lines cur (a @ s) = split_lines (cur @ a) s"
  by (induction a arbitrary: cur) auto

lemma split_lines_eol: "is_eol c \<Longrightarrow> split_lines cur (s @ c # t) = split_lines cur s @ split_lines [] t"
  by (induction cur s rule: split_lines.induct) auto

lemma line_end_split:
  assumes "ngx_core_api ngx" "s \<noteq> []"
  shows "split_lines [] s = take (line_end ngx s) s #
     (if line_end ngx s < length s then split_lines [] (drop (line_end ngx s + 1) s) else [])"
proof -
  note lf = ngx_core_api.strlchr_Some [OF assms(1), of s LF] ngx_core_api.strlchr_None [OF assms(1), of s LF]
    and cr = ngx_core_api.strlchr_Some [OF assms(1), of s CR] ngx_core_api.strlchr_None [OF assms(1), of s CR]
  let ?n = "line_end ngx s"
  have pre: "\<forall>c \<in> set (take ?n s). \<not> is_eol c" and stop: "?n < length s \<longrightarrow> is_eol (s ! ?n)"
    using lf cr by (auto simp: line_end_def is_eol_def dest: set_take_subset_set_take [THEN subsetD, rotated]
        in_set_takeD split: option.splits if_splits)
      (meson less_imp_le_nat linorder_not_less set_take_subset_set_take subsetD)+
  show ?thesis
  proof (cases "?n < length s")
    case True
    then have s: "s = take ?n s @ s ! ?n # drop (?n + 1) s" by (simp add: id_take_nth_drop)
    have "split_lines [] (take ?n s @ s ! ?n # drop (?n + 1) s) = take ?n s # split_lines [] (drop (?n + 1) s)"
      using split_lines_eol [OF stop [rule_format, OF True]] split_lines_first [OF pre, of "[]" "[]"] by simp
    then show ?thesis using s True by simp
  next
    case False
    then show ?thesis using split_lines_first [OF pre, of "[]" "[]"] by simp
  qed
qed

lemma scan_revoked_iff:
  assumes "ngx_core_api ngx"
  shows "scan_revoked ngx fp s \<longleftrightarrow> (\<exists>l \<in> set (split_lines [] s). names_fpr ngx fp l)"
  using assms
proof (induction ngx fp s rule: scan_revoked.induct)
  case (1 ngx fp s)
  show ?case
  proof (cases "s = []")
    case True
    then show ?thesis by (simp add: scan_revoked.simps)
  next
    case False
    let ?n = "line_end ngx s"
    have "scan_revoked ngx fp s \<longleftrightarrow>
        names_fpr ngx fp (take ?n s) \<or> scan_revoked ngx fp (drop (?n + 1) s)"
      using False by (subst scan_revoked.simps) (simp add: entry_matches_iff Let_def)
    moreover have "drop (?n + 1) s = [] \<Longrightarrow> \<not> scan_revoked ngx fp (drop (?n + 1) s)"
      by (simp add: scan_revoked.simps)
    ultimately show ?thesis
      using line_end_split [OF "1.prems" False] "1.IH" [OF False refl _ "1.prems"]
      by (cases "?n < length s") (auto simp: entry_matches_iff)
  qed
qed

text \<open>The contents that a check goes by: the cache while the file is unchanged, else what is read now.\<close>

definition list_contents :: "loc_conf \<Rightarrow> revoc_env \<Rightarrow> 'p worker \<Rightarrow> bytes option" where
  "list_contents plcf env w = (case rv_stat env of
       None \<Rightarrow> None
     | Some (mtime, sz) \<Rightarrow>
         if w_revoc_cache w \<noteq> None \<and> mtime = w_revoc_mtime w then w_revoc_cache w
         else if \<not> rv_open_ok env \<or> (revoc_max_size plcf \<noteq> 0 \<and> sz > revoc_max_size plcf) \<or> \<not> rv_alloc_ok env
         then None else map_option (take sz) (rv_read env))"

lemma is_revoked_contents:
  "fst (is_revoked ngx plcf env fp w) \<longleftrightarrow>
     revocation_list plcf \<noteq> [] \<and> fp \<noteq> [] \<and>
     (case list_contents plcf env w of None \<Rightarrow> \<not> revoc_fail_open plcf | Some s \<Rightarrow> scan_revoked ngx fp s)"
  by (auto simp: is_revoked_def reload_list_def list_contents_def Let_def
      split: option.splits prod.splits if_splits)

lemma is_revoked_frame:
  "w_nonce_zone (snd (is_revoked ngx plcf env fp w)) = w_nonce_zone w"
  "w_failure_zone (snd (is_revoked ngx plcf env fp w)) = w_failure_zone w"
  by (auto simp: is_revoked_def reload_list_def Let_def split: option.splits prod.splits if_splits)

section \<open>Properties\<close>

text \<open>
  C14: a key counts as revoked exactly if a list is configured and it has a line (ended by LF, CR or
  both) that, without surrounding and inner blanks and up to letter case, is its fingerprint and
  is not a comment; a list that cannot be read revokes every key unless fail-open is configured.
\<close>

theorem is_revoked_correct:
  assumes "ngx_core_api ngx"
  shows "fst (is_revoked ngx plcf env fp w) \<longleftrightarrow>
     revocation_list plcf \<noteq> [] \<and> fp \<noteq> [] \<and>
     (case list_contents plcf env w of
        None \<Rightarrow> \<not> revoc_fail_open plcf
      | Some s \<Rightarrow> (\<exists>l \<in> set (split_lines [] s). names_fpr ngx fp l))"
  by (simp add: is_revoked_contents scan_revoked_iff [OF assms] split: option.splits)

definition sample_worker :: "slab_ref worker" where
  "sample_worker = \<lparr>w_nonce_zone = sample_zone, w_failure_zone = sample_throttle, w_revoc_mtime = 0,
     w_revoc_cache = None, w_log = []\<rparr>"

definition sample_conf :: loc_conf where
  "sample_conf = \<lparr>enable = True, keyring = ''/etc/nginx/pubkeys.gpg'', challenge_timeout = 120, session_timeout = 3600,
     cookie_secure = True, cookie_host_prefix = True, cookie_samesite = SAMESITE_LAX, bind_ip = True, bind_ua = True,
     has_nonce_zone = True, has_failure_zone = True, failure_limit = 3, failure_window = 60, failure_ban_time = 300,
     nonce_backend = sample_nc\<lparr>nc_storage := NONCE_MEMORY\<rparr>, revocation_list = ''/etc/nginx/revoked'',
     revoc_fail_open = False, revoc_max_size = 1048576, gpg_timeout = 2000, max_body_size = 16384,
     gpg_path = ''/usr/bin/gpg'', secret = ''0123456789abcdef'', secret_previous = [], thread_pool = False\<rparr>"

definition sample_list :: "bytes \<Rightarrow> revoc_env" where
  "sample_list s = \<lparr>rv_stat = Some (5, length s), rv_open_ok = True, rv_alloc_ok = True, rv_read = Some s\<rparr>"

theorem is_revoked_correct_witness:
  "fst (is_revoked ngx_ref sample_conf (sample_list (''# old keys'' @ CRLF @ ''ab CD'' @ [CR] @ ''12'')) ''ABcd'' sample_worker)"
  using is_revoked_correct [OF ref_core.ngx_core_api_axioms, of sample_conf
      "sample_list (''# old keys'' @ CRLF @ ''ab CD'' @ [CR] @ ''12'')" "''ABcd''" sample_worker]
  by (simp add: sample_conf_def sample_list_def list_contents_def sample_worker_def names_fpr_def trim_entry_def
      is_blank_def is_eol_def ngx_ref_def tolower_ref_def less_eq_char_def Let_def char_of_def bit_0)

end
