(* ===== verification/Session.thy ===== *)
theory Session
  imports Revocation
begin

text \<open>
  Tokens and sessions in \<open>ngx_http_pgp_auth_module.c\<close>: the MAC over a token and the client binding,
  the check of a session cookie, and the issue of one.
\<close>

section \<open>The MAC\<close>

text \<open>\<open>ngx_http_pgp_hmac_raw\<close>: the bytes fed to the HMAC, in the order of the update calls.\<close>

definition mac_input :: "bytes \<Rightarrow> bytes \<Rightarrow> bytes \<Rightarrow> bytes \<Rightarrow> bytes \<Rightarrow> bytes" where
  "mac_input kind scope payload ip ua = kind @ [RS] @ scope @ [RS] @ payload @ [RS] @ ip @ [RS] @ ua"

definition hmac_raw :: "ngx_lib \<Rightarrow> bytes \<Rightarrow> bytes \<Rightarrow> bytes \<Rightarrow> bytes \<Rightarrow> bytes \<Rightarrow> bytes \<Rightarrow> bytes option" where
  "hmac_raw ngx key kind scope ip ua payload =
     (case HMAC_sha256 ngx key (mac_input kind scope payload ip ua) of
        None \<Rightarrow> None | Some md \<Rightarrow> Some (ngx_hex_dump ngx md))"

definition binding :: "request \<Rightarrow> loc_conf \<Rightarrow> bytes \<times> bytes" where
  "binding r plcf =
     (if bind_ip plcf then addr_text r else [],
      if bind_ua plcf then (case user_agent r of None \<Rightarrow> [] | Some ua \<Rightarrow> ua) else [])"

definition hmac_hex :: "ngx_lib \<Rightarrow> http_env \<Rightarrow> request \<Rightarrow> loc_conf \<Rightarrow> bytes \<Rightarrow> bytes \<Rightarrow> bytes option" where
  "hmac_hex ngx env r plcf kind payload =
     (case binding r plcf of (ip, ua) \<Rightarrow>
        case hmac_raw ngx (secret plcf) kind (keyring plcf) ip ua payload of
          None \<Rightarrow> None
        | Some hex \<Rightarrow> if alloc_ok env Alloc_Mac then Some hex else None)"

definition ct_eq :: "bytes \<Rightarrow> bytes \<Rightarrow> bool" where
  "ct_eq a b = (if length a \<noteq> length b then False else memcmp a b (length a) = 0)"

section \<open>The session cookie\<close>

definition cookie_name :: "loc_conf \<Rightarrow> bytes" where
  "cookie_name plcf =
     (if cookie_host_prefix plcf \<and> cookie_secure plcf then NGX_HTTP_PGP_COOKIE_HOST else NGX_HTTP_PGP_COOKIE)"

definition get_cookie :: "request \<Rightarrow> bytes \<Rightarrow> bytes option" where
  "get_cookie r name = req_cookie r name"

text \<open>The MAC of a token is compared with the current secret's and then with the previous one's.\<close>

definition matches_previous :: "ngx_lib \<Rightarrow> loc_conf \<Rightarrow> bytes \<Rightarrow> bytes \<times> bytes \<Rightarrow> bytes \<Rightarrow> bytes \<Rightarrow> bool" where
  "matches_previous ngx plcf kind bnd payload mac_have =
     (secret_previous plcf \<noteq> [] \<and>
      (case hmac_raw ngx (secret_previous plcf) kind (keyring plcf) (fst bnd) (snd bnd) payload of
         None \<Rightarrow> False | Some mac_want \<Rightarrow> ct_eq mac_have mac_want))"

definition check_session :: "ngx_lib \<Rightarrow> http_env \<Rightarrow> time_t \<Rightarrow> request \<Rightarrow> loc_conf \<Rightarrow> 'p worker
    \<Rightarrow> ngx_rc \<times> 'p worker" where
  "check_session ngx env now r plcf w =
     (case get_cookie r (cookie_name plcf) of
        None \<Rightarrow> (NGX_DECLINED, w)
      | Some cookie \<Rightarrow>
          (case ngx_strlchr ngx cookie PIPE of
             None \<Rightarrow> (NGX_DECLINED, w)
           | Some sep1 \<Rightarrow>
               (case ngx_strlchr ngx (drop (sep1 + 1) cookie) PIPE of
                  None \<Rightarrow> (NGX_DECLINED, w)
                | Some k \<Rightarrow>
                    let sep2 = sep1 + 1 + k;
                        payload = take sep2 cookie;
                        mac_have = drop (sep2 + 1) cookie in
                    (case hmac_hex ngx env r plcf ''sess'' payload of
                       None \<Rightarrow> (NGX_DECLINED, w)
                     | Some mac_want \<Rightarrow>
                         if \<not> ct_eq mac_have mac_want
                            \<and> \<not> matches_previous ngx plcf ''sess'' (binding r plcf) payload mac_have
                         then (NGX_DECLINED, w)
                         else let exp = ngx_atotm ngx (take sep1 cookie) in
                           if exp \<noteq> 0 \<and> exp < now then (NGX_DECLINED, w)
                           else (case is_revoked ngx plcf (env_revoc env) (take k (drop (sep1 + 1) cookie)) w of
                               (True, w) \<Rightarrow>
                                 (NGX_DECLINED, log_error NGX_LOG_INFO ''pgp_auth: session key revoked'' w)
                             | (False, w) \<Rightarrow> (NGX_OK, w))))))"

section \<open>Issuing a session\<close>

definition samesite_name :: "samesite \<Rightarrow> bytes" where
  "samesite_name s = (case s of SAMESITE_LAX \<Rightarrow> ''Lax'' | SAMESITE_STRICT \<Rightarrow> ''Strict'' | SAMESITE_NONE \<Rightarrow> ''None'')"

definition session_payload :: "ngx_lib \<Rightarrow> time_t \<Rightarrow> bytes \<Rightarrow> bytes" where
  "session_payload ngx exp fp = ngx_fmt_T ngx exp @ [PIPE] @ fp"

definition session_exp :: "loc_conf \<Rightarrow> time_t \<Rightarrow> time_t" where
  "session_exp plcf now = (if session_timeout plcf = 0 then 0 else now + session_timeout plcf)"

definition cookie_size :: "bytes \<Rightarrow> bytes \<Rightarrow> bytes \<Rightarrow> nat" where
  "cookie_size name payload mac = length name + 1 + length payload + 1 + length mac
     + length ''; Path=/; HttpOnly; SameSite='' + length ''Strict'' + length ''; Secure'' + 32"

definition cookie_value :: "loc_conf \<Rightarrow> bytes \<Rightarrow> bytes \<Rightarrow> bytes" where
  "cookie_value plcf payload mac =
     (let name = cookie_name plcf in
      snprintf (cookie_size name payload mac)
        (name @ ''='' @ payload @ [PIPE] @ mac @ ''; Path=/; HttpOnly; SameSite='' @
         samesite_name (cookie_samesite plcf) @ (if cookie_secure plcf then ''; Secure'' else '''')))"

definition grant :: "ngx_lib \<Rightarrow> http_env \<Rightarrow> time_t \<Rightarrow> request \<Rightarrow> loc_conf \<Rightarrow> bytes \<Rightarrow> response
    \<Rightarrow> ngx_rc \<times> response" where
  "grant ngx env now r plcf fp rs =
     (if \<not> alloc_ok env Alloc_Session then (NGX_ERROR, rs)
      else let payload = session_payload ngx (session_exp plcf now) fp in
        case hmac_hex ngx env r plcf ''sess'' payload of
          None \<Rightarrow> (NGX_ERROR, rs)
        | Some mac \<Rightarrow>
            if \<not> alloc_ok env Alloc_Set_Cookie then (NGX_ERROR, rs)
            else if \<not> alloc_ok env Alloc_Cookie_Value then (NGX_ERROR, push_header ''Set-Cookie'' '''' rs)
            else let rs = push_header ''Set-Cookie'' (cookie_value plcf payload mac) rs in
              if \<not> alloc_ok env Alloc_Cache_Header then (NGX_ERROR, rs)
              else let rs = push_header ''Cache-Control'' ''no-store'' rs in
                if \<not> alloc_ok env Alloc_Location then (NGX_ERROR, rs)
                else let rs = push_header ''Location'' (req_uri r) rs in
                  (NGX_HTTP NGX_HTTP_SEE_OTHER, rs\<lparr>rs_status := NGX_HTTP_SEE_OTHER, rs_content_length := 0\<rparr>))"

section \<open>Tokens\<close>

lemma ct_eq_iff [simp]: "ct_eq a b \<longleftrightarrow> a = b"
  by (auto simp: ct_eq_def memcmp_zero_iff)

text \<open>A MAC that the module accepts for a payload: under the current or the previous secret.\<close>

definition mac_ok :: "ngx_lib \<Rightarrow> loc_conf \<Rightarrow> bytes \<Rightarrow> bytes \<times> bytes \<Rightarrow> bytes \<Rightarrow> bytes \<Rightarrow> bool" where
  "mac_ok ngx plcf kind bnd payload mac \<longleftrightarrow>
     (\<exists>key \<in> {secret plcf} \<union> (if secret_previous plcf = [] then {} else {secret_previous plcf}).
        hmac_raw ngx key kind (keyring plcf) (fst bnd) (snd bnd) payload = Some mac)"

lemma mac_ok_cases:
  "mac_ok ngx plcf kind bnd payload mac \<longleftrightarrow>
     hmac_raw ngx (secret plcf) kind (keyring plcf) (fst bnd) (snd bnd) payload = Some mac \<or>
     matches_previous ngx plcf kind bnd payload mac"
  by (auto simp: mac_ok_def matches_previous_def split: option.splits)

lemma hmac_hex_raw:
  "hmac_hex ngx env r plcf kind payload =
     (if alloc_ok env Alloc_Mac
      then hmac_raw ngx (secret plcf) kind (keyring plcf) (fst (binding r plcf)) (snd (binding r plcf)) payload
      else None)"
  by (auto simp: hmac_hex_def split: prod.splits option.splits)

text \<open>
  The parts of a MAC input can be read back, and the two kinds of tokens never share an input,
  as long as no part but the last contains the separator.
\<close>

lemma mac_input_inject:
  assumes "mac_input kind scope payload ip ua = mac_input kind' scope' payload' ip' ua'"
    and "RS \<notin> set kind \<union> set scope \<union> set payload \<union> set ip"
    and "RS \<notin> set kind' \<union> set scope' \<union> set payload' \<union> set ip'"
  shows "kind = kind' \<and> scope = scope' \<and> payload = payload' \<and> ip = ip' \<and> ua = ua'"
proof -
  have 1: "kind = kind' \<and> scope @ RS # payload @ RS # ip @ RS # ua = scope' @ RS # payload' @ RS # ip' @ RS # ua'"
    using assms by (intro append_separator_inject) (auto simp: mac_input_def)
  then have 2: "scope = scope' \<and> payload @ RS # ip @ RS # ua = payload' @ RS # ip' @ RS # ua'"
    using assms by (intro append_separator_inject) auto
  then have "payload = payload' \<and> ip @ RS # ua = ip' @ RS # ua'"
    using assms by (intro append_separator_inject) auto
  then have "ip = ip' \<and> ua = ua'" using assms by (intro append_separator_inject) auto
  with 1 2 \<open>payload = payload' \<and> _\<close> show ?thesis by simp
qed

lemma kinds_disjoint: "mac_input ''chal'' s p i u \<noteq> mac_input ''sess'' s' p' i' u'"
  by (simp add: mac_input_def)

section \<open>Checking and granting\<close>

context ngx_core_api
begin

lemma check_session_parts:
  assumes "req_cookie r (cookie_name plcf) = Some (e @ PIPE # f @ PIPE # mac)" "PIPE \<notin> set e" "PIPE \<notin> set f"
  shows "fst (check_session ngx env now r plcf w) = NGX_OK \<longleftrightarrow>
     hmac_hex ngx env r plcf ''sess'' (e @ PIPE # f) \<noteq> None \<and>
     mac_ok ngx plcf ''sess'' (binding r plcf) (e @ PIPE # f) mac \<and>
     (ngx_atotm ngx e = 0 \<or> now \<le> ngx_atotm ngx e) \<and> \<not> fst (is_revoked ngx plcf (env_revoc env) f w)"
proof -
  have take: "take (Suc (length e + length f)) (e @ PIPE # f @ PIPE # mac) = e @ PIPE # f" by simp
  have prev: "hmac_hex ngx env r plcf ''sess'' (e @ PIPE # f) = Some mw \<Longrightarrow>
      mac_ok ngx plcf ''sess'' (binding r plcf) (e @ PIPE # f) mac \<longleftrightarrow>
      mac = mw \<or> matches_previous ngx plcf ''sess'' (binding r plcf) (e @ PIPE # f) mac" for mw
    by (auto simp: mac_ok_cases hmac_hex_raw split: if_splits)
  show ?thesis
    using assms prev by (cases "hmac_hex ngx env r plcf ''sess'' (e @ PIPE # f)")
      (auto simp: check_session_def get_cookie_def Let_def take split: prod.splits bool.splits)
qed

lemma check_session_split:
  assumes "fst (check_session ngx env now r plcf w) = NGX_OK"
  obtains e f mac where "req_cookie r (cookie_name plcf) = Some (e @ PIPE # f @ PIPE # mac)" "PIPE \<notin> set e" "PIPE \<notin> set f"
proof -
  from assms obtain cookie i k where c: "req_cookie r (cookie_name plcf) = Some cookie"
      "ngx_strlchr ngx cookie PIPE = Some i" "ngx_strlchr ngx (drop (i + 1) cookie) PIPE = Some k"
    by (auto simp: check_session_def get_cookie_def split: option.splits)
  let ?t = "drop (i + 1) cookie"
  from c(2) have i: "i < length cookie" "cookie ! i = PIPE" "PIPE \<notin> set (take i cookie)" by (auto simp: strlchr_Some)
  from c(3) have k: "k < length ?t" "?t ! k = PIPE" "PIPE \<notin> set (take k ?t)"
    using strlchr_Some [of ?t PIPE k] by auto
  have "cookie = take i cookie @ PIPE # ?t" using id_take_nth_drop [OF i(1)] i(2) by simp
  moreover have "?t = take k ?t @ PIPE # drop (Suc k) ?t" using k by (metis id_take_nth_drop)
  ultimately show ?thesis using that c(1) i(3) k(3) by metis
qed

end

lemma grant_effect:
  assumes "grant ngx env now r plcf fp rs = (NGX_HTTP 303, rs')"
  obtains mac where
    "hmac_hex ngx env r plcf ''sess'' (session_payload ngx (session_exp plcf now) fp) = Some mac"
    "rs_headers rs' = rs_headers rs @
       [(''Set-Cookie'', cookie_value plcf (session_payload ngx (session_exp plcf now) fp) mac),
        (''Cache-Control'', ''no-store''), (''Location'', req_uri r)]"
    "rs_status rs' = 303"
  using assms by (auto simp: grant_def push_header_def Let_def split: if_splits option.splits)

lemma grant_rc: "fst (grant ngx env now r plcf fp rs) \<in> {NGX_ERROR, NGX_HTTP 303}"
  by (auto simp: grant_def Let_def split: option.splits)

text \<open>
  What a browser makes of a Set-Cookie header: the text before the first semicolon is the name and the value, split at its first
  equals sign.
\<close>

definition stored_cookie :: "bytes \<Rightarrow> (bytes \<times> bytes) option" where
  "stored_cookie hdr =
     (let nv = takeWhile (\<lambda>c. c \<noteq> CHR '';'') hdr in
      if CHR ''='' \<in> set nv
      then Some (takeWhile (\<lambda>c. c \<noteq> CHR ''='') nv, drop 1 (dropWhile (\<lambda>c. c \<noteq> CHR ''='') nv)) else None)"

lemma stored_cookie_text:
  assumes "CHR '';'' \<notin> set name" "CHR ''='' \<notin> set name" "CHR '';'' \<notin> set tok"
  shows "stored_cookie (name @ CHR ''='' # tok @ CHR '';'' # attrs) = Some (name, tok)"
proof -
  have "takeWhile (\<lambda>c. c \<noteq> CHR '';'') ((name @ CHR ''='' # tok) @ CHR '';'' # attrs) = name @ CHR ''='' # tok"
    by (rule takeWhile_append_stop) (use assms in simp)
  then show ?thesis using assms(2) by (simp add: stored_cookie_def)
qed

text \<open>The cookie fits the buffer that is allocated for it.\<close>

lemma cookie_value_text:
  "cookie_value plcf payload mac =
     cookie_name plcf @ ''='' @ (payload @ [PIPE] @ mac) @ ''; Path=/; HttpOnly; SameSite='' @
     samesite_name (cookie_samesite plcf) @ (if cookie_secure plcf then ''; Secure'' else [])"
  by (simp add: cookie_value_def cookie_size_def snprintf_def samesite_name_def Let_def split: samesite.split)

lemma cookie_name_plain: "CHR '';'' \<notin> set (cookie_name plcf)" "CHR ''='' \<notin> set (cookie_name plcf)"
  by (simp_all add: cookie_name_def NGX_HTTP_PGP_COOKIE_HOST_def NGX_HTTP_PGP_COOKIE_def)

text \<open>A session token holds hex digits and bars only.\<close>

definition token_char :: "char \<Rightarrow> bool" where
  "token_char c \<longleftrightarrow> is_hex c \<or> c = PIPE"

context ngx_core_api
begin

lemma session_token_chars:
  assumes "0 \<le> exp" "fpr_shape fp" "hmac_raw ngx key kind scope ip ua payload = Some mac"
  shows "list_all token_char (session_payload ngx exp fp @ [PIPE] @ mac)"
proof -
  have "list_all is_digit (ngx_fmt_T ngx exp)" using fmt_decimal [OF assms(1)] fmt_nat_digits by simp
  moreover have "list_all is_lower_hex mac" using assms(3) hex_dump_hex by (auto simp: hmac_raw_def split: option.splits)
  ultimately show ?thesis
    using assms(2)
    by (auto simp: session_payload_def fpr_shape_def list_all_iff token_char_def is_hex_def is_digit_def is_lower_hex_def)
qed

end

lemma fpr_shape_no_pipe: "fpr_shape f \<Longrightarrow> PIPE \<notin> set f"
  by (auto simp: fpr_shape_def list_all_iff is_hex_def less_eq_char_def)

section \<open>Properties\<close>

text \<open>
  C7: a request is let through on its cookie exactly if the cookie is an expiry, a fingerprint and a
  MAC, the MAC is the one of the first two parts for this keyring and this client under the current
  or the previous secret, the expiry is zero or not past, and the fingerprint is not revoked.
\<close>

theorem session_accepted_iff:
  assumes "ngx_core_api ngx"
  shows "fst (check_session ngx env now r plcf w) = NGX_OK \<longleftrightarrow>
     (\<exists>e f mac. req_cookie r (cookie_name plcf) = Some (e @ [PIPE] @ f @ [PIPE] @ mac) \<and>
        PIPE \<notin> set e \<and> PIPE \<notin> set f \<and>
        hmac_hex ngx env r plcf ''sess'' (e @ [PIPE] @ f) \<noteq> None \<and>
        mac_ok ngx plcf ''sess'' (binding r plcf) (e @ [PIPE] @ f) mac \<and>
        (ngx_atotm ngx e = 0 \<or> now \<le> ngx_atotm ngx e) \<and>
        \<not> fst (is_revoked ngx plcf (env_revoc env) f w))"
  (is "_ \<longleftrightarrow> (\<exists>e f mac. ?P e f mac)")
proof
  assume ok: "fst (check_session ngx env now r plcf w) = NGX_OK"
  from ngx_core_api.check_session_split [OF assms ok] obtain e f mac
    where c: "req_cookie r (cookie_name plcf) = Some (e @ PIPE # f @ PIPE # mac)" "PIPE \<notin> set e" "PIPE \<notin> set f" .
  with ok ngx_core_api.check_session_parts [OF assms c, of env now w] have "?P e f mac" by simp
  then show "\<exists>e f mac. ?P e f mac" by blast
next
  assume "\<exists>e f mac. ?P e f mac"
  then obtain e f mac where p: "?P e f mac" by blast
  then show "fst (check_session ngx env now r plcf w) = NGX_OK"
    using ngx_core_api.check_session_parts [OF assms, of r plcf e f mac env now w] by simp
qed

text \<open>Concrete values: a client, and an environment in which everything works.\<close>

definition sample_req :: "bytes \<Rightarrow> bytes option \<Rightarrow> request" where
  "sample_req ua cookie = \<lparr>addr_text = ''10.0.0.9'', user_agent = Some ua, req_cookie = (\<lambda>name. cookie),
     req_is_main = True, req_is_post = False, req_args = [], req_arg = False, req_content_length = -1,
     req_chunked = False, req_uri = ''/admin/'', req_body = None, header_only = False\<rparr>"

definition sample_http :: "bytes \<Rightarrow> http_env" where
  "sample_http revoked = \<lparr>alloc_ok = (\<lambda>a. True), rand_nonce = Some ''0123456789abcdef'', send_header_rc = NGX_OK,
     send_special_rc = NGX_OK, output_filter_rc = NGX_OK, discard_rc = NGX_OK, read_body_rc = NGX_OK,
     task_post_ok = True, palloc_vr = sample_vr, env_gpg = sample_env sample_status sample_plain True, env_redis = sample_redis [],
     env_revoc = sample_list revoked\<rparr>"

definition sample_resp :: response where
  "sample_resp = \<lparr>rs_status = 0, rs_headers = [], rs_content_length = 0, rs_header_sent = False, rs_body = None,
     rs_final = [], rs_keepalive = True\<rparr>"

lemma hmac_ref_total: "hmac_raw ngx_ref key kind scope ip ua payload \<noteq> None"
  by (simp add: hmac_raw_def ngx_ref_def hmac_ref_def)

lemma sample_no_list: "\<not> fst (is_revoked ngx plcf (env_revoc (sample_http [])) f sample_worker)"
  by (simp add: is_revoked_contents list_contents_def sample_http_def sample_list_def sample_worker_def
      scan_revoked.simps split: option.splits)

theorem session_accepted_iff_witness:
  "fst (check_session ngx_ref (sample_http []) 1000 (sample_req ''curl'' (Some ''1|2'')) sample_conf sample_worker)
     \<noteq> NGX_OK"
proof -
  have "\<not> (\<exists>e f mac. ''1|2'' = e @ [PIPE] @ f @ [PIPE] @ mac)"
  proof
    assume "\<exists>e f mac. ''1|2'' = e @ [PIPE] @ f @ [PIPE] @ mac"
    then obtain e f mac where "''1|2'' = e @ [PIPE] @ f @ [PIPE] @ mac" by blast
    then have "count_list ''1|2'' PIPE = count_list (e @ [PIPE] @ f @ [PIPE] @ mac) PIPE" by simp
    then show False by simp
  qed
  then show ?thesis
    using session_accepted_iff [OF ref_core.ngx_core_api_axioms, of "sample_http []" 1000
        "sample_req ''curl'' (Some ''1|2'')" sample_conf sample_worker]
    by (simp only: sample_req_def request.simps option.inject) blast
qed

text \<open>
  C13: session round trip.  Granting a session adds exactly one Set-Cookie header; its value is not cut off: the cookie name of the
  location, a token of hex digits and bars, and the attributes Path, HttpOnly, SameSite as configured, and Secure if
  configured.  A browser stores this token under that name, and when the same client presents what it stored, the session
  is accepted until its expiry (forever if sessions do not expire) unless the key gets revoked, also after the secret was
  rotated to become the previous one.
\<close>

theorem session_roundtrip:
  assumes "ngx_core_api ngx" "fpr_shape fp" "grant ngx env t r plcf fp rs = (NGX_HTTP 303, rs')"
    and "0 \<le> session_exp plcf t" "session_exp plcf t \<le> time_max"
  shows "\<exists>hdr name tok.
     rs_headers rs' = rs_headers rs @ [(''Set-Cookie'', hdr), (''Cache-Control'', ''no-store''), (''Location'', req_uri r)] \<and>
     hdr = name @ ''='' @ tok @ ''; Path=/; HttpOnly; SameSite='' @
       (case cookie_samesite plcf of SAMESITE_LAX \<Rightarrow> ''Lax'' | SAMESITE_STRICT \<Rightarrow> ''Strict'' | SAMESITE_NONE \<Rightarrow> ''None'') @
       (if cookie_secure plcf then ''; Secure'' else []) \<and>
     name = (if cookie_host_prefix plcf \<and> cookie_secure plcf then ''__Host-pgp_session'' else ''pgp_session'') \<and>
     list_all token_char tok \<and> stored_cookie hdr = Some (name, tok) \<and>
     (\<forall>env' now r' plcf' w.
        req_cookie r' name = Some tok \<longrightarrow> cookie_name plcf' = name \<longrightarrow>
        keyring plcf' = keyring plcf \<longrightarrow>
        (secret plcf' = secret plcf \<or> secret_previous plcf' = secret plcf \<and> secret plcf \<noteq> []) \<longrightarrow>
        binding r' plcf' = binding r plcf \<longrightarrow>
        hmac_hex ngx env' r' plcf' ''sess'' (session_payload ngx (session_exp plcf t) fp) \<noteq> None \<longrightarrow>
        session_timeout plcf = 0 \<or> now \<le> t + session_timeout plcf \<longrightarrow>
        \<not> fst (is_revoked ngx plcf' (env_revoc env') fp w) \<longrightarrow>
        fst (check_session ngx env' now r' plcf' w) = NGX_OK)"
proof -
  let ?e = "ngx_fmt_T ngx (session_exp plcf t)" and ?p = "session_payload ngx (session_exp plcf t) fp"
  from grant_effect [OF assms(3)] obtain mac where mac: "hmac_hex ngx env r plcf ''sess'' ?p = Some mac"
    and hdr: "rs_headers rs' = rs_headers rs @ [(''Set-Cookie'', cookie_value plcf ?p mac),
        (''Cache-Control'', ''no-store''), (''Location'', req_uri r)]" by blast
  let ?tok = "?p @ [PIPE] @ mac"
  have sep: "PIPE \<notin> set ?e" "PIPE \<notin> set fp"
    using ngx_core_api.fmt_no_pipe [OF assms(1,4)] fpr_shape_no_pipe [OF assms(2)] by auto
  have exp: "ngx_atotm ngx ?e = session_exp plcf t" using ngx_core_api.atotm_fmt [OF assms(1,4,5)] .
  have raw: "hmac_raw ngx (secret plcf) ''sess'' (keyring plcf) (fst (binding r plcf)) (snd (binding r plcf)) ?p = Some mac"
    using mac by (simp add: hmac_hex_raw split: if_splits)
  have accepted: "fst (check_session ngx env' now r' plcf' w) = NGX_OK"
    if c: "req_cookie r' (cookie_name plcf') = Some ?tok" and k: "keyring plcf' = keyring plcf"
      and sec: "secret plcf' = secret plcf \<or> secret_previous plcf' = secret plcf \<and> secret plcf \<noteq> []"
      and b: "binding r' plcf' = binding r plcf" and h: "hmac_hex ngx env' r' plcf' ''sess'' ?p \<noteq> None"
      and live: "session_timeout plcf = 0 \<or> now \<le> t + session_timeout plcf"
      and nr: "\<not> fst (is_revoked ngx plcf' (env_revoc env') fp w)" for env' now r' plcf' and w :: "'c worker"
  proof -
    have "mac_ok ngx plcf' ''sess'' (binding r' plcf') ?p mac" using raw sec k b by (auto simp: mac_ok_def)
    then show ?thesis
      using ngx_core_api.check_session_parts [OF assms(1) _ sep, of r' plcf' mac env' now w] c h live nr exp
      by (auto simp: session_payload_def session_exp_def split: if_splits)
  qed
  have chars: "list_all token_char ?tok" by (rule ngx_core_api.session_token_chars [OF assms(1,4,2) raw])
  moreover have "\<not> token_char (CHR '';'')" by (simp add: token_char_def is_hex_def less_eq_char_def)
  ultimately have "CHR '';'' \<notin> set ?tok" unfolding list_all_iff by blast
  moreover obtain attrs where "cookie_value plcf ?p mac = cookie_name plcf @ CHR ''='' # ?tok @ CHR '';'' # attrs"
    by (simp add: cookie_value_text)
  ultimately have stored: "stored_cookie (cookie_value plcf ?p mac) = Some (cookie_name plcf, ?tok)"
    using stored_cookie_text [OF cookie_name_plain] by metis
  have name: "cookie_name plcf = (if cookie_host_prefix plcf \<and> cookie_secure plcf then ''__Host-pgp_session'' else ''pgp_session'')"
    by (simp add: cookie_name_def NGX_HTTP_PGP_COOKIE_HOST_def NGX_HTTP_PGP_COOKIE_def)
  have cookie: "cookie_value plcf ?p mac = cookie_name plcf @ ''='' @ ?tok @ ''; Path=/; HttpOnly; SameSite='' @
      (case cookie_samesite plcf of SAMESITE_LAX \<Rightarrow> ''Lax'' | SAMESITE_STRICT \<Rightarrow> ''Strict'' | SAMESITE_NONE \<Rightarrow> ''None'') @
      (if cookie_secure plcf then ''; Secure'' else [])"
    by (simp only: cookie_value_text samesite_name_def)
  show ?thesis
    by (rule exI [where x = "cookie_value plcf ?p mac"], rule exI [where x = "cookie_name plcf"], rule exI [where x = ?tok],
        intro conjI allI impI, rule hdr, rule cookie, rule name, rule chars, rule stored, rule accepted) simp_all
qed

lemma sample_grant:
  "fst (grant ngx_ref (sample_http l) 1000 (sample_req ua c) sample_conf fp sample_resp) = NGX_HTTP 303"
  using hmac_ref_total by (auto simp: grant_def hmac_hex_raw sample_http_def Let_def split: option.splits)

theorem session_roundtrip_witness:
  "\<exists>hdr name tok. (''Set-Cookie'', hdr) \<in>
       set (rs_headers (snd (grant ngx_ref (sample_http []) 1000 (sample_req ''curl'' None) sample_conf sample_fpr sample_resp))) \<and>
     stored_cookie hdr = Some (name, tok) \<and>
     fst (check_session ngx_ref (sample_http []) 2000 (sample_req ''curl'' (Some tok))
       (sample_conf\<lparr>secret := ''newsecretnewsecr'', secret_previous := secret sample_conf\<rparr>) sample_worker) = NGX_OK"
proof -
  let ?g = "grant ngx_ref (sample_http []) 1000 (sample_req ''curl'' None) sample_conf sample_fpr sample_resp"
  let ?plcf = "sample_conf\<lparr>secret := ''newsecretnewsecr'', secret_previous := secret sample_conf\<rparr>"
  have g: "?g = (NGX_HTTP 303, snd ?g)" using sample_grant by (metis prod.collapse)
  have shape: "fpr_shape sample_fpr" using sample_fpr_hex by (simp add: fpr_shape_def fpr_is_hex_def)
  have range: "0 \<le> session_exp sample_conf 1000" "session_exp sample_conf 1000 \<le> time_max"
    by (simp_all add: session_exp_def sample_conf_def time_max_def)
  obtain hdr name tok where hdr: "rs_headers (snd ?g) = rs_headers sample_resp @ [(''Set-Cookie'', hdr), (''Cache-Control'', ''no-store''),
        (''Location'', req_uri (sample_req ''curl'' None))]" "stored_cookie hdr = Some (name, tok)"
    and name: "name = (if cookie_host_prefix sample_conf \<and> cookie_secure sample_conf then ''__Host-pgp_session'' else ''pgp_session'')"
    and all: "\<forall>env' now r' plcf' (w :: slab_ref worker). req_cookie r' name = Some tok \<longrightarrow> cookie_name plcf' = name \<longrightarrow>
        keyring plcf' = keyring sample_conf \<longrightarrow>
        secret plcf' = secret sample_conf \<or> secret_previous plcf' = secret sample_conf \<and> secret sample_conf \<noteq> [] \<longrightarrow>
        binding r' plcf' = binding (sample_req ''curl'' None) sample_conf \<longrightarrow>
        hmac_hex ngx_ref env' r' plcf' ''sess'' (session_payload ngx_ref (session_exp sample_conf 1000) sample_fpr) \<noteq> None \<longrightarrow>
        session_timeout sample_conf = 0 \<or> now \<le> 1000 + session_timeout sample_conf \<longrightarrow>
        \<not> fst (is_revoked ngx_ref plcf' (env_revoc env') sample_fpr w) \<longrightarrow>
        fst (check_session ngx_ref env' now r' plcf' w) = NGX_OK"
    using session_roundtrip [OF ref_core.ngx_core_api_axioms shape g range] by blast
  note ok = all [rule_format]
  have "hmac_hex ngx_ref (sample_http []) r plcf k p \<noteq> None" for r plcf k p
    using hmac_ref_total by (simp add: hmac_hex_raw sample_http_def)
  moreover have "cookie_name ?plcf = name"
    using name by (simp add: cookie_name_def NGX_HTTP_PGP_COOKIE_HOST_def NGX_HTTP_PGP_COOKIE_def)
  ultimately have "fst (check_session ngx_ref (sample_http []) 2000 (sample_req ''curl'' (Some tok)) ?plcf sample_worker) = NGX_OK"
    using sample_no_list by (intro ok) (simp_all add: sample_req_def binding_def sample_conf_def)
  moreover have "(''Set-Cookie'', hdr) \<in> set (rs_headers (snd ?g))" using hdr(1) by simp
  ultimately show ?thesis using hdr(2) by blast
qed

text \<open>
  C21: tokens cannot change their meaning.  If two MAC inputs are equal and the separator byte occurs
  in none of their parts except possibly the User-Agent, then kind, keyring, payload, address and
  User-Agent are all equal; in particular a challenge never passes for a session, another
  keyring's token never for this one's, another client's never for this client's.
\<close>

theorem mac_input_unambiguous:
  assumes "mac_input kind scope payload ip ua = mac_input kind' scope' payload' ip' ua'"
    and "RS \<notin> set kind \<union> set scope \<union> set payload \<union> set ip"
    and "RS \<notin> set kind' \<union> set scope' \<union> set payload' \<union> set ip'"
  shows "kind = kind' \<and> scope = scope' \<and> payload = payload' \<and> ip = ip' \<and> ua = ua'"
  using assms by (rule mac_input_inject)

text \<open>
  A User-Agent may hold the separator: for the bytes that the MAC of a session from \<open>10.0.0.9\<close> covers, the hypotheses hold
  with the User-Agent \<open>a RS b\<close>, and the only other way to write them is the same client; the same session from another
  address, or a challenge with the same text, is covered by other bytes.
\<close>

theorem mac_input_unambiguous_witness:
  "let mac = ''sess'' @ [RS] @ ''/k'' @ [RS] @ ''9|A'' @ [RS] @ ''10.0.0.9'' @ [RS] @ ''a'' @ [RS] @ ''b'' in
   RS \<notin> set ''sess'' \<union> set ''/k'' \<union> set ''9|A'' \<union> set ''10.0.0.9'' \<and>
   mac_input ''sess'' ''/k'' ''9|A'' ''10.0.0.9'' (''a'' @ [RS] @ ''b'') = mac \<and>
   (\<forall>ip ua. mac_input ''sess'' ''/k'' ''9|A'' ip ua = mac \<and> RS \<notin> set ip \<longrightarrow> ip = ''10.0.0.9'' \<and> ua = ''a'' @ [RS] @ ''b'') \<and>
   mac_input ''sess'' ''/k'' ''9|A'' ''10.0.0.8'' (''a'' @ [RS] @ ''b'') \<noteq> mac \<and>
   mac_input ''chal'' ''/k'' ''9|A'' ''10.0.0.9'' (''a'' @ [RS] @ ''b'') \<noteq> mac"
proof -
  have mac: "mac_input ''sess'' ''/k'' ''9|A'' ''10.0.0.9'' (''a'' @ [RS] @ ''b'') =
      ''sess'' @ [RS] @ ''/k'' @ [RS] @ ''9|A'' @ [RS] @ ''10.0.0.9'' @ [RS] @ ''a'' @ [RS] @ ''b''"
    by (simp add: mac_input_def)
  have plain: "RS \<notin> set ''sess'' \<union> set ''/k'' \<union> set ''9|A'' \<union> set ''10.0.0.9''" by simp
  note one = mac_input_unambiguous [OF _ _ plain, where ua' = "''a'' @ [RS] @ ''b''"]
  show ?thesis unfolding Let_def mac [symmetric]
  proof (intro conjI allI impI notI)
    show "RS \<in> set ''sess'' \<union> set ''/k'' \<union> set ''9|A'' \<union> set ''10.0.0.9'' \<Longrightarrow> False" using plain by blast
  next
    fix ip ua
    assume "mac_input ''sess'' ''/k'' ''9|A'' ip ua = mac_input ''sess'' ''/k'' ''9|A'' ''10.0.0.9'' (''a'' @ [RS] @ ''b'') \<and> RS \<notin> set ip"
    then have "mac_input ''sess'' ''/k'' ''9|A'' ip ua = mac_input ''sess'' ''/k'' ''9|A'' ''10.0.0.9'' (''a'' @ [RS] @ ''b'')" "RS \<notin> set ip" by simp_all
    from one [OF this(1)] this(2) show "ip = ''10.0.0.9''" "ua = ''a'' @ [RS] @ ''b''" by simp_all
  next
    assume "mac_input ''sess'' ''/k'' ''9|A'' ''10.0.0.8'' (''a'' @ [RS] @ ''b'') = mac_input ''sess'' ''/k'' ''9|A'' ''10.0.0.9'' (''a'' @ [RS] @ ''b'')"
    from one [OF this] show False by simp
  next
    assume "mac_input ''chal'' ''/k'' ''9|A'' ''10.0.0.9'' (''a'' @ [RS] @ ''b'') = mac_input ''sess'' ''/k'' ''9|A'' ''10.0.0.9'' (''a'' @ [RS] @ ''b'')"
    from one [OF this] show False by simp
  qed (rule refl)
qed

text \<open>
  C36: without that proviso a session can be moved to another fingerprint.  A client whose User-Agent
  at login is \<open>x RS ip RS y\<close> may afterwards present the payload \<open>exp|fpr RS ip RS x\<close> with the
  same MAC and the User-Agent \<open>y\<close>: the cookie is accepted although its fingerprint field is not the
  signer's, so a revocation of the signer's key does not end the session.
\<close>

theorem session_evades_revocation:
  assumes "ngx_core_api ngx" "fpr_shape fp" "bind_ip plcf" "bind_ua plcf"
    and "user_agent r = Some (x @ [RS] @ addr_text r @ [RS] @ y)" "PIPE \<notin> set x \<union> set (addr_text r)"
    and "grant ngx env t r plcf fp rs = (NGX_HTTP 303, rs')"
    and "0 \<le> session_exp plcf t" "session_exp plcf t \<le> time_max"
  shows "\<exists>mac. (''Set-Cookie'', cookie_value plcf (session_payload ngx (session_exp plcf t) fp) mac) \<in> set (rs_headers rs') \<and>
     (\<forall>env' now r' w. addr_text r' = addr_text r \<longrightarrow> user_agent r' = Some y \<longrightarrow>
        req_cookie r' (cookie_name plcf) =
          Some (session_payload ngx (session_exp plcf t) (fp @ [RS] @ addr_text r @ [RS] @ x) @ [PIPE] @ mac) \<longrightarrow>
        alloc_ok env' Alloc_Mac \<longrightarrow> session_timeout plcf = 0 \<or> now \<le> t + session_timeout plcf \<longrightarrow>
        \<not> fst (is_revoked ngx plcf (env_revoc env') (fp @ [RS] @ addr_text r @ [RS] @ x) w) \<longrightarrow>
        fst (check_session ngx env' now r' plcf w) = NGX_OK)"
proof -
  let ?e = "ngx_fmt_T ngx (session_exp plcf t)" and ?p = "session_payload ngx (session_exp plcf t)"
  let ?f = "fp @ [RS] @ addr_text r @ [RS] @ x"
  from grant_effect [OF assms(7)] obtain mac where mac: "hmac_hex ngx env r plcf ''sess'' (?p fp) = Some mac"
    and "rs_headers rs' = rs_headers rs @ [(''Set-Cookie'', cookie_value plcf (?p fp) mac),
        (''Cache-Control'', ''no-store''), (''Location'', req_uri r)]" by blast
  then have hdr: "(''Set-Cookie'', cookie_value plcf (?p fp) mac) \<in> set (rs_headers rs')" by simp
  have raw: "hmac_raw ngx (secret plcf) ''sess'' (keyring plcf) (addr_text r) y (?p ?f) = Some mac"
    using mac assms(3-5) by (simp add: hmac_hex_raw hmac_raw_def binding_def mac_input_def session_payload_def split: if_splits)
  have sep: "PIPE \<notin> set ?e" "PIPE \<notin> set ?f"
    using ngx_core_api.fmt_no_pipe [OF assms(1,8)] fpr_shape_no_pipe [OF assms(2)] assms(6) by auto
  have "fst (check_session ngx env' now r' plcf w) = NGX_OK"
    if r': "addr_text r' = addr_text r" "user_agent r' = Some y" and c: "req_cookie r' (cookie_name plcf) = Some (?p ?f @ [PIPE] @ mac)"
      and al: "alloc_ok env' Alloc_Mac" and live: "session_timeout plcf = 0 \<or> now \<le> t + session_timeout plcf"
      and nr: "\<not> fst (is_revoked ngx plcf (env_revoc env') ?f w)" for env' now r' w
  proof -
    have "binding r' plcf = (addr_text r, y)" using assms(3,4) r' by (simp add: binding_def)
    then have "mac_ok ngx plcf ''sess'' (binding r' plcf) (?p ?f) mac" "hmac_hex ngx env' r' plcf ''sess'' (?p ?f) \<noteq> None"
      using raw al by (auto simp: mac_ok_def hmac_hex_raw)
    then show ?thesis
      using ngx_core_api.check_session_parts [OF assms(1) _ sep, of r' plcf mac env' now w] c live nr
        ngx_core_api.atotm_fmt [OF assms(1,8,9)]
      by (auto simp: session_payload_def session_exp_def split: if_splits)
  qed
  with hdr show ?thesis by blast
qed

lemma sample_revocation:
  "fst (is_revoked ngx_ref sample_conf (sample_list sample_fpr) f sample_worker) \<longleftrightarrow>
     f \<noteq> [] \<and> map (ngx_tolower ngx_ref) sample_fpr = map (ngx_tolower ngx_ref) f"
proof -
  have "split_lines [] sample_fpr = [sample_fpr]" by (simp add: sample_fpr_def is_eol_def)
  moreover have "trim_entry sample_fpr = sample_fpr" by (simp add: sample_fpr_def trim_entry_def is_blank_def)
  moreover have "filter (\<lambda>c. \<not> is_blank c) sample_fpr = sample_fpr" by (simp add: sample_fpr_def is_blank_def)
  moreover have "sample_fpr \<noteq> []" "hd sample_fpr \<noteq> CHR ''#''" by (simp_all add: sample_fpr_def)
  moreover have "list_contents sample_conf (sample_list sample_fpr) sample_worker = Some sample_fpr"
    by (simp add: list_contents_def sample_list_def sample_worker_def sample_conf_def sample_fpr_hex)
  ultimately show ?thesis
    by (simp add: is_revoked_contents scan_revoked_iff [OF ref_core.ngx_core_api_axioms] names_fpr_def)
      (simp add: sample_conf_def)
qed

theorem session_evades_revocation_witness:
  "\<exists>cookie. fst (is_revoked ngx_ref sample_conf (sample_list sample_fpr) sample_fpr sample_worker) \<and>
     fst (check_session ngx_ref (sample_http sample_fpr) 2000 (sample_req ''y'' (Some cookie)) sample_conf sample_worker)
       = NGX_OK"
proof -
  let ?r = "sample_req (''x'' @ [RS] @ ''10.0.0.9'' @ [RS] @ ''y'') None"
  let ?g = "grant ngx_ref (sample_http []) 1000 ?r sample_conf sample_fpr sample_resp"
  let ?f = "sample_fpr @ [RS] @ ''10.0.0.9'' @ [RS] @ ''x''"
  have g: "?g = (NGX_HTTP 303, snd ?g)" using sample_grant by (metis prod.collapse)
  have shape: "fpr_shape sample_fpr" using sample_fpr_hex by (simp add: fpr_shape_def fpr_is_hex_def)
  have "length (map (ngx_tolower ngx_ref) sample_fpr) \<noteq> length (map (ngx_tolower ngx_ref) ?f)" by simp
  then have "\<not> fst (is_revoked ngx_ref sample_conf (sample_list sample_fpr) ?f sample_worker)"
    unfolding sample_revocation by metis
  note notrev = this
  have range: "0 \<le> session_exp sample_conf 1000" "session_exp sample_conf 1000 \<le> time_max"
    by (simp_all add: session_exp_def sample_conf_def time_max_def)
  have ua: "user_agent ?r = Some (''x'' @ [RS] @ addr_text ?r @ [RS] @ ''y'')" "PIPE \<notin> set ''x'' \<union> set (addr_text ?r)"
    "bind_ip sample_conf" "bind_ua sample_conf" "addr_text ?r = ''10.0.0.9''" by (simp_all add: sample_req_def sample_conf_def)
  obtain mac where mac: "\<forall>env' now r' (w :: slab_ref worker). addr_text r' = ''10.0.0.9'' \<longrightarrow> user_agent r' = Some ''y'' \<longrightarrow>
        req_cookie r' (cookie_name sample_conf) = Some (session_payload ngx_ref (session_exp sample_conf 1000) ?f @ [PIPE] @ mac) \<longrightarrow>
        alloc_ok env' Alloc_Mac \<longrightarrow> session_timeout sample_conf = 0 \<or> now \<le> 1000 + session_timeout sample_conf \<longrightarrow>
        \<not> fst (is_revoked ngx_ref sample_conf (env_revoc env') ?f w) \<longrightarrow>
        fst (check_session ngx_ref env' now r' sample_conf w) = NGX_OK"
    using session_evades_revocation [OF ref_core.ngx_core_api_axioms shape ua(3,4,1,2) g range, unfolded ua(5)] by blast
  let ?c = "session_payload ngx_ref (session_exp sample_conf 1000) ?f @ [PIPE] @ mac"
  have "fst (check_session ngx_ref (sample_http sample_fpr) 2000 (sample_req ''y'' (Some ?c)) sample_conf sample_worker) = NGX_OK"
    using notrev by (intro mac [rule_format]) (simp_all add: sample_req_def sample_http_def, simp add: sample_conf_def)
  moreover have "fst (is_revoked ngx_ref sample_conf (sample_list sample_fpr) sample_fpr sample_worker)"
    by (simp add: sample_revocation) (simp add: sample_fpr_def)
  ultimately show ?thesis by blast
qed

end
