(* ===== verification/Challenge.thy ===== *)
theory Challenge
  imports Session
begin

text \<open>
  Challenges in \<open>ngx_http_pgp_auth_module.c\<close>: \<open>ngx_http_pgp_send_challenge\<close>, which issues one and
  renders the login page, and \<open>ngx_http_pgp_validate_consume\<close>, which finds one in the signed text,
  checks it and uses up its nonce.
\<close>

section \<open>The login page\<close>

definition page_head :: bytes where
  \<open>page_head =
     ''<!DOCTYPE html><html><head><meta charset="utf-8">'' @
     ''<meta name="viewport" content="width=device-width, initial-scale=1">'' @
     ''<title>PGP authentication</title><style>'' @
     ''body{font-family:system-ui,sans-serif;max-width:640px;margin:40px auto;'' @
     ''padding:0 16px;color:#222}textarea{width:100%;box-sizing:border-box;'' @
     ''font-family:monospace;font-size:13px}code{background:#f4f4f4;padding:2px 4px}'' @
     ''.err{color:#b00;font-weight:bold}.box{background:#f7f7f7;border:1px solid #ddd;'' @
     ''padding:8px;border-radius:6px}</style></head><body>'' @
     ''<h2>PGP authentication required</h2>''\<close>

definition page_notice :: bytes where
  \<open>page_notice =
     ''<p class="err">Verification failed. '' @ ''Please sign a fresh challenge below.</p>''\<close>

definition page_form :: "bytes \<Rightarrow> bytes" where
  \<open>page_form challenge =
     ''<ol><li>Copy the challenge below.</li>'' @
     ''<li>Sign it with your key (e.g. Kleopatra &rarr; Notepad &rarr; '' @
     ''Sign).</li>'' @
     ''<li>Paste the signed block back and submit.</li></ol>'' @
     ''<p><b>Challenge:</b></p>'' @
     ''<textarea class="box" rows="2" readonly '' @
     ''onclick="this.select()">'' @ challenge @ ''</textarea>'' @
     ''<form method="POST" action="?__pgp_auth=1">'' @
     ''<p><b>Signed message:</b></p>'' @
     ''<textarea name="signed" rows="14" '' @
     ''placeholder="-----BEGIN PGP SIGNED MESSAGE-----" required></textarea>'' @
     ''<p><button type="submit">Authenticate</button></p>'' @
     ''</form></body></html>''\<close>

text \<open>Every part is written only as far as the allocation of head, challenge and 2048 bytes reaches.\<close>

definition page_body :: "bool \<Rightarrow> bytes \<Rightarrow> bytes" where
  "page_body failed challenge =
     (let sz = length page_head + length challenge + 2048;
          b = page_head;
          b = (if failed \<and> sz - length b > length page_notice then b @ page_notice else b)
      in b @ snprintf (sz - length b) (page_form challenge))"

definition apos :: "bytes \<Rightarrow> bytes" where
  "apos s = [CHR 0x27] @ s @ [CHR 0x27]"

definition sec_headers :: "(bytes \<times> bytes) list" where
  "sec_headers =
     [(''X-Frame-Options'', ''DENY''),
      (''X-Content-Type-Options'', ''nosniff''),
      (''Content-Security-Policy'',
       ''default-src '' @ apos ''none'' @ ''; style-src '' @ apos ''unsafe-inline'' @ ''; '' @
       ''frame-ancestors '' @ apos ''none''),
      (''Cache-Control'', ''no-store''),
      (''Referrer-Policy'', ''no-referrer'')]"

text \<open>The headers are pushed one by one; an allocation failure leaves those before it.\<close>

fun push_sec_headers :: "http_env \<Rightarrow> nat \<Rightarrow> (bytes \<times> bytes) list \<Rightarrow> response \<Rightarrow> bool \<times> response" where
  "push_sec_headers env i [] rs = (True, rs)"
| "push_sec_headers env i ((k, v) # hs) rs =
     (if \<not> alloc_ok env (Alloc_Sec_Header i) then (False, rs)
      else push_sec_headers env (Suc i) hs (push_header k v rs))"

section \<open>ngx\_http\_pgp\_send\_challenge\<close>

definition challenge_payload :: "ngx_lib \<Rightarrow> time_t \<Rightarrow> bytes \<Rightarrow> bytes" where
  "challenge_payload ngx exp nonce_hex = ''v1'' @ [PIPE] @ ngx_fmt_T ngx exp @ [PIPE] @ nonce_hex"

definition send_challenge :: "ngx_lib \<Rightarrow> http_env \<Rightarrow> time_t \<Rightarrow> request \<Rightarrow> loc_conf \<Rightarrow> bool \<Rightarrow> response
    \<Rightarrow> ngx_rc \<times> response" where
  "send_challenge ngx env now r plcf failed rs =
     (let err = NGX_HTTP NGX_HTTP_INTERNAL_SERVER_ERROR in
      case rand_nonce env of
        None \<Rightarrow> (err, rs)
      | Some nonce \<Rightarrow>
          let payload = challenge_payload ngx (now + challenge_timeout plcf) (ngx_hex_dump ngx nonce) in
          if \<not> alloc_ok env Alloc_Chal_Payload then (err, rs)
          else case hmac_hex ngx env r plcf ''chal'' payload of
            None \<Rightarrow> (err, rs)
          | Some mac \<Rightarrow>
              if \<not> alloc_ok env Alloc_Challenge then (err, rs)
              else if \<not> alloc_ok env Alloc_Page then (err, rs)
              else let body = page_body failed (payload @ [PIPE] @ mac);
                       rs = rs\<lparr>rs_status := (if failed then NGX_HTTP_FORBIDDEN else NGX_HTTP_OK),
                               rs_content_length := length body\<rparr>;
                       rs = push_header ''Content-Type'' ''text/html'' rs
                   in case push_sec_headers env 0 sec_headers rs of
                     (False, rs) \<Rightarrow> (err, rs)
                   | (True, rs) \<Rightarrow>
                       let rc = send_header_rc env; rs = rs\<lparr>rs_header_sent := True\<rparr> in
                       if rc = NGX_ERROR \<or> above_ok rc \<or> header_only r then (rc, rs)
                       else if \<not> alloc_ok env Alloc_Buf then (err, rs)
                       else (output_filter_rc env, rs\<lparr>rs_body := Some body\<rparr>))"

section \<open>ngx\_http\_pgp\_validate\_consume\<close>

text \<open>The first place where the challenge mark occurs, with what follows.\<close>

fun find_v1 :: "bytes \<Rightarrow> bytes option" where
  "find_v1 s =
     (if length s < 3 then None
      else if take 3 s = ''v1'' @ [PIPE] then Some s else find_v1 (tl s))"

declare find_v1.simps [simp del]

text \<open>The line there, without the line feed and one carriage return before it.\<close>

definition challenge_line :: "ngx_lib \<Rightarrow> bytes \<Rightarrow> bytes" where
  "challenge_line ngx p =
     (let l = (case ngx_strlchr ngx p LF of None \<Rightarrow> p | Some i \<Rightarrow> take i p) in
      if l \<noteq> [] \<and> last l = CR then butlast l else l)"

text \<open>Splitting at three bars: what is signed, expiry, nonce and MAC.\<close>

definition split_challenge :: "ngx_lib \<Rightarrow> bytes \<Rightarrow> (bytes \<times> bytes \<times> bytes \<times> bytes) option" where
  "split_challenge ngx l =
     (case ngx_strlchr ngx l PIPE of
        None \<Rightarrow> None
      | Some s1 \<Rightarrow> (case ngx_strlchr ngx (drop (s1 + 1) l) PIPE of
          None \<Rightarrow> None
        | Some i \<Rightarrow>
            let s2 = s1 + 1 + i in
            (case ngx_strlchr ngx (drop (s2 + 1) l) PIPE of
               None \<Rightarrow> None
             | Some j \<Rightarrow>
                 let s3 = s2 + 1 + j in
                 Some (take s3 l, take i (drop (s1 + 1) l), take j (drop (s2 + 1) l), drop (s3 + 1) l))))"

definition set_reason :: "bytes \<Rightarrow> verify_result \<Rightarrow> verify_result" where
  "set_reason why vr = vr\<lparr>chal_reason := Some why\<rparr>"

definition validate_consume :: "ngx_lib \<Rightarrow> 'p ngx_shm \<Rightarrow> redis_env \<Rightarrow> time_t \<Rightarrow> loc_conf \<Rightarrow> bytes \<times> bytes
    \<Rightarrow> verify_result \<Rightarrow> 'p nonce_zone option \<Rightarrow> ngx_rc \<times> verify_result \<times> 'p nonce_zone option" where
  "validate_consume ngx shm redis now plcf bnd vr zone =
     (case find_v1 (plaintext vr) of
        None \<Rightarrow>
          (NGX_DECLINED,
           set_reason ''no_challenge_in_plaintext''
             (defer_diag vr NGX_LOG_INFO ''pgp_auth: no challenge inside the signed content''), zone)
      | Some p \<Rightarrow>
          (case split_challenge ngx (challenge_line ngx p) of
             None \<Rightarrow> (NGX_DECLINED, set_reason ''malformed_challenge'' vr, zone)
           | Some (payload, exp_s, nonce, mac_have) \<Rightarrow>
               (case hmac_raw ngx (secret plcf) ''chal'' (keyring plcf) (fst bnd) (snd bnd) payload of
                  None \<Rightarrow> (NGX_ERROR, set_reason ''hmac_computation_failed'' vr, zone)
                | Some mac_want \<Rightarrow>
                    if \<not> ct_eq mac_have mac_want \<and> \<not> matches_previous ngx plcf ''chal'' bnd payload mac_have then
                      (NGX_DECLINED,
                       set_reason ''challenge_mac_mismatch''
                         (defer_diag vr NGX_LOG_INFO ''pgp_auth: challenge MAC mismatch''), zone)
                    else let exp = ngx_atotm ngx exp_s in
                      if exp = -1 \<or> exp < now then
                        (NGX_DECLINED,
                         set_reason ''challenge_expired''
                           (defer_diag vr NGX_LOG_INFO ''pgp_auth: challenge expired''), zone)
                      else (case nonce_check_and_set ngx shm redis now vr (nonce_backend plcf) zone nonce exp of
                          (rc, vr, zone, net) \<Rightarrow>
                            if rc = NGX_DECLINED then
                              (NGX_DECLINED,
                               set_reason ''replay''
                                 (defer_diag vr NGX_LOG_INFO ''pgp_auth: challenge already used (replay)''), zone)
                            else if rc \<noteq> NGX_OK then
                              (NGX_ABORT,
                               set_reason ''nonce_store_error''
                                 (defer_diag vr NGX_LOG_ERR ''pgp_auth: nonce store error; rejecting''), zone)
                            else (NGX_OK, set_reason ''valid_signature'' vr, zone)))))"

section \<open>Finding and splitting a challenge\<close>

lemma find_v1_here [simp]: "find_v1 (''v1'' @ [PIPE] @ s) = Some (''v1'' @ [PIPE] @ s)"
  by (subst find_v1.simps) simp

lemma find_v1_suffix: "find_v1 s = Some p \<Longrightarrow> (\<exists>pre. s = pre @ p) \<and> starts_with (''v1'' @ [PIPE]) p"
proof (induction s rule: find_v1.induct)
  case (1 s)
  show ?case
  proof (cases "length s < 3 \<or> take 3 s = ''v1'' @ [PIPE]")
    case True
    then show ?thesis using "1.prems" by (subst (asm) find_v1.simps) (auto simp: starts_with_def numeral_3_eq_3 split: if_splits)
  next
    case False
    then have "find_v1 (tl s) = Some p" using "1.prems" by (subst (asm) find_v1.simps) auto
    with "1.IH" False obtain pre where "tl s = pre @ p" "starts_with (''v1'' @ [PIPE]) p" by auto
    moreover from this have "s = (hd s # pre) @ p" using False by (cases s) auto
    ultimately show ?thesis by blast
  qed
qed

text \<open>A line can end with the text, with a line feed, or with carriage return and line feed.\<close>

definition eol_or_end :: "bytes \<Rightarrow> bool" where
  "eol_or_end s \<longleftrightarrow> s = [] \<or> take 1 s = [LF] \<or> take 2 s = CRLF"

context ngx_core_api
begin

lemma challenge_line_at:
  assumes "LF \<notin> set l" "l \<noteq> []" "last l \<noteq> CR" "eol_or_end s"
  shows "challenge_line ngx (l @ s) = l"
proof -
  consider "s = []" | t where "s = LF # t" | t where "s = CR # LF # t"
    using assms(4) by (auto simp: eol_or_end_def take_Suc_conv_app_nth) (metis append_Cons append_take_drop_id self_append_conv2)+
  then show ?thesis
  proof cases
    case 1
    then show ?thesis using assms(1-3) by (simp add: challenge_line_def strlchr first_index_def)
  next
    case (2 t)
    then show ?thesis using assms(1-3) by (simp add: challenge_line_def Let_def)
  next
    case (3 t)
    have "ngx_strlchr ngx ((l @ [CR]) @ LF # t) LF = Some (length (l @ [CR]))"
      using assms(1) by (intro strlchr_append) simp
    then show ?thesis using 3 by (simp add: challenge_line_def Let_def)
  qed
qed

lemma split_challenge_parts:
  assumes "PIPE \<notin> set a" "PIPE \<notin> set e" "PIPE \<notin> set n"
  shows "split_challenge ngx (a @ PIPE # e @ PIPE # n @ PIPE # m) = Some (a @ PIPE # e @ PIPE # n, e, n, m)"
proof -
  have "drop (length a + 1 + length e + 1) (a @ PIPE # e @ PIPE # n @ PIPE # m) = n @ PIPE # m" by simp
  moreover have "drop (3 + (length e + length n)) (PIPE # e @ PIPE # n @ PIPE # m) = m"
    by (simp add: numeral_3_eq_3)
  ultimately show ?thesis using assms by (simp add: split_challenge_def Let_def)
qed

lemma split_at_pipe:
  assumes "ngx_strlchr ngx s PIPE = Some i"
  shows "s = take i s @ PIPE # drop (i + 1) s" "PIPE \<notin> set (take i s)" "length (take i s) = i"
  using assms id_take_nth_drop [of i s] by (auto simp: strlchr_Some)

lemma split_challenge_Some:
  assumes "split_challenge ngx l = Some (p, e, n, m)"
  obtains a where "l = a @ PIPE # e @ PIPE # n @ PIPE # m" "p = a @ PIPE # e @ PIPE # n"
    "PIPE \<notin> set a" "PIPE \<notin> set e" "PIPE \<notin> set n"
proof -
  from assms obtain i j k where
    s: "ngx_strlchr ngx l PIPE = Some i" "ngx_strlchr ngx (drop (i + 1) l) PIPE = Some j"
      "ngx_strlchr ngx (drop (i + 1 + j + 1) l) PIPE = Some k"
    and v: "e = take j (drop (i + 1) l)" "n = take k (drop (i + 1 + j + 1) l)" "p = take (i + 1 + j + 1 + k) l"
      "m = drop (i + 1 + j + 1 + k + 1) l"
    by (auto simp: split_challenge_def Let_def split: option.splits)
  let ?a = "take i l"
  have l: "l = ?a @ PIPE # e @ PIPE # n @ PIPE # m"
    using split_at_pipe(1) [OF s(1)] split_at_pipe(1) [OF s(2)] split_at_pipe(1) [OF s(3)] v
    by (simp add: add.commute add.left_commute)
  have "length ?a = i" "length e = j" "length n = k"
    using split_at_pipe(3) [OF s(1)] split_at_pipe(3) [OF s(2)] split_at_pipe(3) [OF s(3)] v by simp_all
  then have "p = ?a @ PIPE # e @ PIPE # n" using v(3) by (subst (asm) l) simp
  then show ?thesis
    using that l split_at_pipe(2) [OF s(1)] split_at_pipe(2) [OF s(2)] split_at_pipe(2) [OF s(3)] v by blast
qed

end

lemma page_lens: "length page_notice \<le> 100" "length (page_form c) \<le> length c + 800"
  by (simp_all add: page_notice_def page_form_def)

text \<open>The 2048 bytes of slack are enough: the page is never cut off.\<close>

lemma page_body_complete:
  "page_body failed c = page_head @ (if failed then page_notice else []) @ page_form c"
proof -
  have "length page_notice < length c + 2048" "length (page_form c) \<le> length c + 2048 - length page_notice"
    using page_lens(1) page_lens(2) [of c] by linarith+
  then show ?thesis by (simp add: page_body_def Let_def snprintf_def)
qed

lemma push_sec_body: "push_sec_headers env i hs rs = (ok, rs') \<Longrightarrow> rs_body rs' = rs_body rs"
  by (induction env i hs rs rule: push_sec_headers.induct) (auto simp: push_header_def split: if_splits)

lemma send_challenge_body:
  assumes "send_challenge ngx env t r plcf failed rs = (rc, rs')" "rs_body rs' = Some page" "rs_body rs = None"
  obtains nonce mac where "rand_nonce env = Some nonce"
    "hmac_hex ngx env r plcf ''chal'' (challenge_payload ngx (t + challenge_timeout plcf) (ngx_hex_dump ngx nonce)) = Some mac"
    "page = page_body failed (challenge_payload ngx (t + challenge_timeout plcf) (ngx_hex_dump ngx nonce) @ [PIPE] @ mac)"
  using assms
  by (auto simp: send_challenge_def Let_def push_header_def split: option.splits if_splits prod.splits bool.splits
      dest!: push_sec_body)

context ngx_core_api
begin

lemma challenge_token_line:
  assumes "0 \<le> exp" "length md = 32" "eol_or_end post"
  shows "challenge_line ngx ((challenge_payload ngx exp (ngx_hex_dump ngx nonce) @ [PIPE] @ ngx_hex_dump ngx md) @ post) =
     challenge_payload ngx exp (ngx_hex_dump ngx nonce) @ [PIPE] @ ngx_hex_dump ngx md"
proof (rule challenge_line_at [OF _ _ _ assms(3)])
  have "ngx_hex_dump ngx md \<noteq> []" using hex_dump_len [of md] assms(2) by auto
  then have "last (ngx_hex_dump ngx md) \<in> set (ngx_hex_dump ngx md)" by simp
  then have "last (ngx_hex_dump ngx md) \<noteq> CR" using hex_dump_no_CR by metis
  then show "last (challenge_payload ngx exp (ngx_hex_dump ngx nonce) @ [PIPE] @ ngx_hex_dump ngx md) \<noteq> CR"
    using \<open>ngx_hex_dump ngx md \<noteq> []\<close> by simp
  show "LF \<notin> set (challenge_payload ngx exp (ngx_hex_dump ngx nonce) @ [PIPE] @ ngx_hex_dump ngx md)"
    using assms(1) by (simp add: challenge_payload_def)
qed simp

end

section \<open>Properties\<close>

text \<open>
  The decision of the store on the nonce of a challenge, as the login sees it.
\<close>

definition store_verdict :: "ngx_rc \<Rightarrow> ngx_rc" where
  "store_verdict rc = (if rc = NGX_DECLINED then NGX_DECLINED else if rc \<noteq> NGX_OK then NGX_ABORT else NGX_OK)"

lemma validate_at:
  assumes "ngx_core_api ngx" "find_v1 (plaintext vr) = Some p"
    and "split_challenge ngx (challenge_line ngx p) = Some (payload, e, nonce, mac)"
    and "hmac_raw ngx (secret plcf) ''chal'' (keyring plcf) (fst bnd) (snd bnd) payload \<noteq> None"
  shows "fst (validate_consume ngx shm redis now plcf bnd vr zone) =
     (if mac_ok ngx plcf ''chal'' bnd payload mac \<and> ngx_atotm ngx e \<noteq> -1 \<and> now \<le> ngx_atotm ngx e
      then store_verdict (fst (nonce_check_and_set ngx shm redis now vr (nonce_backend plcf) zone nonce (ngx_atotm ngx e)))
      else NGX_DECLINED)"
  using assms(2-4)
  by (auto simp: validate_consume_def mac_ok_cases store_verdict_def Let_def split: option.splits prod.splits)

text \<open>
  C8: a login gets past the challenge check only if the signed text contains, on a line that starts with
  the challenge mark, an expiry, a nonce and a MAC, the MAC is the one of the line for this keyring
  and client under the current or previous secret, the expiry is not past, and the single-use store
  accepted the nonce.
\<close>

theorem validate_consume_sound:
  assumes "ngx_core_api ngx" "validate_consume ngx shm redis now plcf bnd vr zone = (NGX_OK, vr', zone')"
  shows "\<exists>pre p a e nonce mac. plaintext vr = pre @ p \<and> starts_with (''v1'' @ [PIPE]) p \<and>
     challenge_line ngx p = a @ [PIPE] @ e @ [PIPE] @ nonce @ [PIPE] @ mac \<and>
     PIPE \<notin> set a \<union> set e \<union> set nonce \<and>
     mac_ok ngx plcf ''chal'' bnd (a @ [PIPE] @ e @ [PIPE] @ nonce) mac \<and>
     0 \<le> ngx_atotm ngx e \<and> now \<le> ngx_atotm ngx e \<and>
     fst (nonce_check_and_set ngx shm redis now vr (nonce_backend plcf) zone nonce (ngx_atotm ngx e)) = NGX_OK"
proof -
  have ok: "fst (validate_consume ngx shm redis now plcf bnd vr zone) = NGX_OK" using assms(2) by simp
  then obtain p where p: "find_v1 (plaintext vr) = Some p"
    by (auto simp: validate_consume_def split: option.splits)
  with ok obtain payload e nonce mac where s: "split_challenge ngx (challenge_line ngx p) = Some (payload, e, nonce, mac)"
    by (auto simp: validate_consume_def split: option.splits)
  have h: "hmac_raw ngx (secret plcf) ''chal'' (keyring plcf) (fst bnd) (snd bnd) payload \<noteq> None"
    using ok p s by (auto simp: validate_consume_def split: option.splits)
  note v = validate_at [OF assms(1) p s h, of shm redis now zone, unfolded ok store_verdict_def]
  from ngx_core_api.split_challenge_Some [OF assms(1) s] obtain a
    where "challenge_line ngx p = a @ PIPE # e @ PIPE # nonce @ PIPE # mac" "payload = a @ PIPE # e @ PIPE # nonce"
      "PIPE \<notin> set a" "PIPE \<notin> set e" "PIPE \<notin> set nonce" .
  moreover have "0 \<le> ngx_atotm ngx e \<and> now \<le> ngx_atotm ngx e \<and> mac_ok ngx plcf ''chal'' bnd payload mac \<and>
      fst (nonce_check_and_set ngx shm redis now vr (nonce_backend plcf) zone nonce (ngx_atotm ngx e)) = NGX_OK"
    using v ngx_core_api.atotm_range [OF assms(1), of e] by (auto split: if_splits)
  ultimately show ?thesis using find_v1_suffix [OF p] by fastforce
qed

text \<open>A challenge issued at time 1000 to the sample client, and its signed text.\<close>

definition sample_nonce :: bytes where
  "sample_nonce = ngx_hex_dump ngx_ref ''0123456789abcdef''"

definition sample_payload :: bytes where
  "sample_payload = challenge_payload ngx_ref 1120 sample_nonce"

definition sample_bnd :: "bytes \<times> bytes" where
  "sample_bnd = binding (sample_req ''curl'' None) sample_conf"

definition sample_challenge :: bytes where
  "sample_challenge = sample_payload @ [PIPE] @
     the (hmac_raw ngx_ref (secret sample_conf) ''chal'' (keyring sample_conf) (fst sample_bnd) (snd sample_bnd) sample_payload)"

lemma sample_store:
  "length n \<le> 65535 \<Longrightarrow>
   fst (nonce_check_and_set ngx_ref shm_ref redis now vr (nonce_backend sample_conf) (Some sample_zone) n e) = NGX_OK"
proof -
  assume "length n \<le> 65535"
  then have "fst (nonce_memory ngx_ref shm_ref now vr (Some sample_zone) n e) = NGX_OK"
    by (simp add: nonce_eval)
  then show ?thesis
    by (cases "nonce_memory ngx_ref shm_ref now vr (Some sample_zone) n e")
      (simp add: nonce_check_and_set_def sample_conf_def)
qed

lemma sample_nonce_len: "length sample_nonce = 32"
  using ref_core.hex_dump_len [of "''0123456789abcdef''"] by (simp add: sample_nonce_def)

lemma sample_token:
  obtains mac where "hmac_raw ngx_ref (secret sample_conf) ''chal'' (keyring sample_conf) (fst sample_bnd)
      (snd sample_bnd) sample_payload = Some mac"
    "find_v1 (sample_challenge @ [LF]) = Some (sample_challenge @ [LF])"
    "split_challenge ngx_ref (challenge_line ngx_ref (sample_challenge @ [LF])) =
      Some (sample_payload, ngx_fmt_T ngx_ref 1120, sample_nonce, mac)"
proof -
  obtain mac where mac: "hmac_raw ngx_ref (secret sample_conf) ''chal'' (keyring sample_conf) (fst sample_bnd)
      (snd sample_bnd) sample_payload = Some mac" using hmac_ref_total by blast
  then obtain md where md: "mac = ngx_hex_dump ngx_ref md" "length md = 32"
    using ref_core.hmac_len by (auto simp: hmac_raw_def split: option.splits)
  have c: "sample_challenge = sample_payload @ [PIPE] @ mac" by (simp add: sample_challenge_def mac)
  have f: "find_v1 (sample_challenge @ [LF]) = Some (sample_challenge @ [LF])"
    using find_v1_here [of "ngx_fmt_T ngx_ref 1120 @ [PIPE] @ sample_nonce @ [PIPE] @ mac @ [LF]"]
    by (simp add: c sample_payload_def challenge_payload_def)
  have l: "challenge_line ngx_ref (sample_challenge @ [LF]) = sample_challenge"
    using ref_core.challenge_token_line [of 1120 md "[LF]"] md
    by (simp add: c sample_payload_def sample_nonce_def eol_or_end_def)
  have s: "split_challenge ngx_ref sample_challenge = Some (sample_payload, ngx_fmt_T ngx_ref 1120, sample_nonce, mac)"
    using ref_core.split_challenge_parts [of "''v1''" "ngx_fmt_T ngx_ref 1120" sample_nonce mac]
    by (simp add: c sample_payload_def challenge_payload_def sample_nonce_def)
  show ?thesis using that mac f l s by simp
qed

lemma sample_validate:
  assumes "plaintext vr = sample_challenge @ [LF]"
  shows "fst (validate_consume ngx_ref shm_ref redis 1010 sample_conf sample_bnd vr (Some sample_zone)) = NGX_OK"
proof -
  obtain mac where t: "hmac_raw ngx_ref (secret sample_conf) ''chal'' (keyring sample_conf) (fst sample_bnd)
      (snd sample_bnd) sample_payload = Some mac"
    "find_v1 (sample_challenge @ [LF]) = Some (sample_challenge @ [LF])"
    "split_challenge ngx_ref (challenge_line ngx_ref (sample_challenge @ [LF])) =
      Some (sample_payload, ngx_fmt_T ngx_ref 1120, sample_nonce, mac)" using sample_token .
  then have "mac_ok ngx_ref sample_conf ''chal'' sample_bnd sample_payload mac" by (simp add: mac_ok_def)
  then show ?thesis
    using validate_at [OF ref_core.ngx_core_api_axioms, of vr
        "sample_challenge @ [LF]" sample_payload "ngx_fmt_T ngx_ref 1120" sample_nonce mac sample_conf sample_bnd
        shm_ref redis 1010 "Some sample_zone"]
      assms t ref_core.atotm_fmt [of 1120] sample_store sample_nonce_len
    by (simp add: time_max_def store_verdict_def)
qed

theorem validate_consume_sound_witness:
  "\<exists>pre p a e nonce mac. sample_challenge @ [LF] = pre @ p \<and> starts_with (''v1'' @ [PIPE]) p \<and>
     challenge_line ngx_ref p = a @ [PIPE] @ e @ [PIPE] @ nonce @ [PIPE] @ mac \<and>
     mac_ok ngx_ref sample_conf ''chal'' sample_bnd (a @ [PIPE] @ e @ [PIPE] @ nonce) mac \<and> 1010 \<le> ngx_atotm ngx_ref e"
proof -
  let ?vr = "sample_vr\<lparr>plaintext := sample_challenge @ [LF]\<rparr>"
  let ?v = "validate_consume ngx_ref shm_ref (sample_redis []) 1010 sample_conf sample_bnd ?vr (Some sample_zone)"
  have "plaintext ?vr = sample_challenge @ [LF]" by simp
  then have "?v = (NGX_OK, fst (snd ?v), snd (snd ?v))" using sample_validate by (metis surjective_pairing3)
  from validate_consume_sound [OF ref_core.ngx_core_api_axioms this]
  have "\<exists>pre p a e nonce mac. plaintext ?vr = pre @ p \<and> starts_with (''v1'' @ [PIPE]) p \<and>
     challenge_line ngx_ref p = a @ [PIPE] @ e @ [PIPE] @ nonce @ [PIPE] @ mac \<and>
     mac_ok ngx_ref sample_conf ''chal'' sample_bnd (a @ [PIPE] @ e @ [PIPE] @ nonce) mac \<and> 1010 \<le> ngx_atotm ngx_ref e"
    by blast
  then show ?thesis by simp
qed

text \<open>
  C12: challenge round trip.  When a login page is produced, the page shows a challenge; when its text comes
  back in a signed message, possibly after other text and followed by a line end, within its
  lifetime, from the same client and under the same secret or after one rotation, the result is exactly the
  verdict of the single-use store on the challenge's nonce and expiry.
\<close>

theorem challenge_roundtrip:
  assumes "ngx_core_api ngx" "send_challenge ngx env t r plcf failed rs = (rc, rs')" "rs_body rs' = Some page" "rs_body rs = None"
    and "0 \<le> t + challenge_timeout plcf" "t + challenge_timeout plcf \<le> time_max"
  shows "\<exists>nonce mac. let exp = t + challenge_timeout plcf; c = challenge_payload ngx exp (ngx_hex_dump ngx nonce) @ [PIPE] @ mac in
     rand_nonce env = Some nonce \<and> page = page_head @ (if failed then page_notice else []) @ page_form c \<and>
     (\<forall>(shm :: 'p ngx_shm) redis now plcf' bnd vr zone post.
        find_v1 (plaintext vr) = Some (c @ post) \<longrightarrow> eol_or_end post \<longrightarrow> now \<le> exp \<longrightarrow>
        bnd = binding r plcf \<longrightarrow> keyring plcf' = keyring plcf \<longrightarrow>
        (secret plcf' = secret plcf \<or> secret_previous plcf' = secret plcf \<and> secret plcf \<noteq> []) \<longrightarrow>
        hmac_raw ngx (secret plcf') ''chal'' (keyring plcf') (fst bnd) (snd bnd)
          (challenge_payload ngx exp (ngx_hex_dump ngx nonce)) \<noteq> None \<longrightarrow>
        fst (validate_consume ngx shm redis now plcf' bnd vr zone) =
          store_verdict (fst (nonce_check_and_set ngx shm redis now vr (nonce_backend plcf') zone
            (ngx_hex_dump ngx nonce) exp)))"
proof -
  let ?exp = "t + challenge_timeout plcf"
  obtain nonce mac where n: "rand_nonce env = Some nonce"
    and mac: "hmac_hex ngx env r plcf ''chal'' (challenge_payload ngx ?exp (ngx_hex_dump ngx nonce)) = Some mac"
    and page: "page = page_body failed (challenge_payload ngx ?exp (ngx_hex_dump ngx nonce) @ [PIPE] @ mac)"
    using send_challenge_body [OF assms(2-4)] .
  let ?h = "ngx_hex_dump ngx nonce" and ?e = "ngx_fmt_T ngx ?exp"
  let ?p = "challenge_payload ngx ?exp ?h"
  have "fst (validate_consume ngx shm redis now plcf' bnd vr zone) =
          store_verdict (fst (nonce_check_and_set ngx shm redis now vr (nonce_backend plcf') zone ?h ?exp))"
    if f: "find_v1 (plaintext vr) = Some ((?p @ [PIPE] @ mac) @ post)" and "eol_or_end post" and now: "now \<le> ?exp"
      and b: "bnd = binding r plcf" and k: "keyring plcf' = keyring plcf"
      and sec: "secret plcf' = secret plcf \<or> secret_previous plcf' = secret plcf \<and> secret plcf \<noteq> []"
      and h: "hmac_raw ngx (secret plcf') ''chal'' (keyring plcf') (fst bnd) (snd bnd) ?p \<noteq> None"
    for shm :: "'p ngx_shm" and redis now plcf' bnd vr zone post
  proof -
    obtain md where md: "mac = ngx_hex_dump ngx md" and len: "length md = 32"
        and raw: "hmac_raw ngx (secret plcf) ''chal'' (keyring plcf) (fst bnd) (snd bnd) ?p = Some mac"
      using mac b ngx_core_api.hmac_len [OF assms(1)]
      by (auto simp: hmac_hex_raw hmac_raw_def split: if_splits option.splits)
    have line: "challenge_line ngx ((?p @ [PIPE] @ mac) @ post) = ?p @ [PIPE] @ mac"
      using ngx_core_api.challenge_token_line [OF assms(1,5) _ \<open>eol_or_end post\<close>, of md nonce] md len by simp
    have split: "split_challenge ngx (?p @ [PIPE] @ mac) = Some (?p, ?e, ?h, mac)"
      using ngx_core_api.split_challenge_parts [OF assms(1), of "''v1''" ?e ?h mac] ngx_core_api.fmt_no_pipe [OF assms(1,5)]
        ngx_core_api.hex_dump_no_pipe [OF assms(1)]
      by (simp add: challenge_payload_def)
    have "mac_ok ngx plcf' ''chal'' bnd ?p mac" using raw sec k by (auto simp: mac_ok_def)
    then show ?thesis
      using validate_at [OF assms(1) f _ h, of ?e ?h mac shm redis now zone] line split now assms(5)
        ngx_core_api.atotm_fmt [OF assms(1,5,6)] by simp
  qed
  then show ?thesis
    unfolding Let_def using n page page_body_complete by (intro exI [of _ nonce] exI [of _ mac]) auto
qed

lemma sample_page:
  "\<exists>page. rs_body (snd (send_challenge ngx_ref (sample_http []) 1000 (sample_req ''curl'' None) sample_conf False sample_resp)) = Some page"
proof -
  let ?env = "sample_http []"
  have env: "rand_nonce ?env = Some ''0123456789abcdef''" "alloc_ok ?env a" "send_header_rc ?env = NGX_OK" for a
    by (simp_all add: sample_http_def)
  obtain mac where mac: "hmac_hex ngx_ref ?env (sample_req ''curl'' None) sample_conf ''chal''
      (challenge_payload ngx_ref (1000 + challenge_timeout sample_conf) (ngx_hex_dump ngx_ref ''0123456789abcdef'')) = Some mac"
    using hmac_ref_total by (fastforce simp: hmac_hex_raw env)
  have "\<not> header_only (sample_req ''curl'' None)" by (simp add: sample_req_def)
  then show ?thesis
    by (simp add: send_challenge_def env mac sec_headers_def above_ok_def Let_def split: option.splits)
qed

theorem challenge_roundtrip_witness:
  "\<exists>c. fst (validate_consume ngx_ref shm_ref (sample_redis []) 1010 sample_conf sample_bnd
     (sample_vr\<lparr>plaintext := c @ CRLF @ ''bye''\<rparr>) (Some sample_zone)) = NGX_OK"
proof -
  let ?s = "send_challenge ngx_ref (sample_http []) 1000 (sample_req ''curl'' None) sample_conf False sample_resp"
  obtain page where page: "rs_body (snd ?s) = Some page" using sample_page by blast
  have s: "?s = (fst ?s, snd ?s)" by simp
  have exp: "1000 + challenge_timeout sample_conf = 1120" by (simp add: sample_conf_def)
  obtain nonce mac where n: "rand_nonce (sample_http []) = Some nonce" and rt:
    "\<forall>(shm :: slab_ref ngx_shm) redis now plcf' bnd vr zone post.
        find_v1 (plaintext vr) = Some ((challenge_payload ngx_ref 1120 (ngx_hex_dump ngx_ref nonce) @ [PIPE] @ mac) @ post) \<longrightarrow>
        eol_or_end post \<longrightarrow> now \<le> 1120 \<longrightarrow>
        bnd = binding (sample_req ''curl'' None) sample_conf \<longrightarrow> keyring plcf' = keyring sample_conf \<longrightarrow>
        (secret plcf' = secret sample_conf \<or> secret_previous plcf' = secret sample_conf \<and> secret sample_conf \<noteq> []) \<longrightarrow>
        hmac_raw ngx_ref (secret plcf') ''chal'' (keyring plcf') (fst bnd) (snd bnd)
          (challenge_payload ngx_ref 1120 (ngx_hex_dump ngx_ref nonce)) \<noteq> None \<longrightarrow>
        fst (validate_consume ngx_ref shm redis now plcf' bnd vr zone) =
          store_verdict (fst (nonce_check_and_set ngx_ref shm redis now vr (nonce_backend plcf') zone
            (ngx_hex_dump ngx_ref nonce) 1120))"
    using challenge_roundtrip [OF ref_core.ngx_core_api_axioms s page, unfolded exp, unfolded Let_def]
    by (auto simp: time_max_def sample_resp_def)
  let ?c = "challenge_payload ngx_ref 1120 (ngx_hex_dump ngx_ref nonce) @ [PIPE] @ mac"
  have len: "length (ngx_hex_dump ngx_ref nonce) \<le> 65535"
    using n ref_core.hex_dump_len [of nonce] by (auto simp: sample_http_def)
  have f: "find_v1 (?c @ CRLF @ ''bye'') = Some (?c @ CRLF @ ''bye'')"
    using find_v1_here [of "ngx_fmt_T ngx_ref 1120 @ [PIPE] @ ngx_hex_dump ngx_ref nonce @ [PIPE] @ mac @ CRLF @ ''bye''"]
    by (simp add: challenge_payload_def)
  have "fst (validate_consume ngx_ref shm_ref (sample_redis []) 1010 sample_conf sample_bnd
     (sample_vr\<lparr>plaintext := ?c @ CRLF @ ''bye''\<rparr>) (Some sample_zone)) =
     store_verdict (fst (nonce_check_and_set ngx_ref shm_ref (sample_redis []) 1010
       (sample_vr\<lparr>plaintext := ?c @ CRLF @ ''bye''\<rparr>) (nonce_backend sample_conf) (Some sample_zone)
       (ngx_hex_dump ngx_ref nonce) 1120))"
    using f hmac_ref_total by (intro rt [rule_format, of _ "CRLF @ ''bye''"]) (simp_all add: eol_or_end_def sample_bnd_def)
  also have "\<dots> = NGX_OK" by (simp only: sample_store [OF len]) (simp add: store_verdict_def)
  finally show ?thesis by blast
qed

end
