(* ===== verification/Form.thy ===== *)
theory Form
  imports Challenge
begin

text \<open>
  Reading the submitted form in \<open>ngx_http_pgp_auth_module.c\<close>: collecting the request body
  (\<open>ngx_http_pgp_read_body\<close>), decoding its field in place (\<open>ngx_http_pgp_form_field\<close>), and the cheap
  look at the message before gpg is started (\<open>ngx_http_pgp_verify_pre\<close>).
\<close>

section \<open>Model\<close>

subsection \<open>The body\<close>

text \<open>The size of the buffers; \<open>None\<close> as soon as one of them is in a file.\<close>

fun body_size :: "nat \<Rightarrow> body_buf list \<Rightarrow> nat option" where
  "body_size n [] = Some n"
| "body_size n (In_File sz # bufs) = None"
| "body_size n (In_Memory s # bufs) = body_size (n + length s) bufs"

primrec buf_bytes :: "body_buf \<Rightarrow> bytes" where
  "buf_bytes (In_Memory s) = s"
| "buf_bytes (In_File sz) = []"

fun copy_bufs :: "bytes \<Rightarrow> body_buf list \<Rightarrow> bytes" where
  "copy_bufs acc [] = acc"
| "copy_bufs acc (b # bufs) = copy_bufs (acc @ buf_bytes b) bufs"

definition read_body :: "ngx_lib \<Rightarrow> http_env \<Rightarrow> request \<Rightarrow> nat \<Rightarrow> 'p worker \<Rightarrow> ngx_rc \<times> bytes \<times> 'p worker" where
  "read_body ngx env r mx w =
     (case req_body r of
        None \<Rightarrow> (NGX_DECLINED, [], w)
      | Some [] \<Rightarrow> (NGX_DECLINED, [], w)
      | Some bufs \<Rightarrow>
          (case body_size 0 bufs of
             None \<Rightarrow>
               (NGX_DECLINED, [],
                log_error NGX_LOG_ERR
                  (''pgp_auth: request body buffered to disk; raise '' @ ''client_body_buffer_size'') w)
           | Some n \<Rightarrow>
               if n > mx then
                 (NGX_DECLINED, [],
                  log_error NGX_LOG_INFO
                    (''pgp_auth: auth body too large ('' @ ngx_fmt_T ngx (int n) @ '' > '' @ ngx_fmt_T ngx (int mx) @ '')'') w)
               else if \<not> alloc_ok env Alloc_Body then (NGX_ERROR, [], w)
               else (NGX_OK, copy_bufs [] bufs, w)))"

subsection \<open>The form field\<close>

definition NGX_HTTP_PGP_FIELD :: bytes where
  "NGX_HTTP_PGP_FIELD = ''signed''"

text \<open>
  The decoding loop: \<open>buf\<close> is the body, read at \<open>src\<close> and overwritten at \<open>dst\<close>; the end of the
  body is \<open>last\<close> in the source.
\<close>

function form_loop :: "ngx_lib \<Rightarrow> bytes \<Rightarrow> nat \<Rightarrow> nat \<Rightarrow> bytes \<times> nat" where
  "form_loop ngx buf src dst =
     (if src < length buf \<and> buf ! src \<noteq> CHR ''&'' then
        (if buf ! src = CHR ''+'' then form_loop ngx (buf[dst := SPACE]) (src + 1) (dst + 1)
         else if buf ! src = CHR ''%'' \<and> src + 2 < length buf then
           (case (ngx_hextoi1 ngx (buf ! (src + 1)), ngx_hextoi1 ngx (buf ! (src + 2))) of
              (Some hi, Some lo) \<Rightarrow> form_loop ngx (buf[dst := char_of (hi * 16 + lo)]) (src + 3) (dst + 1)
            | _ \<Rightarrow> form_loop ngx (buf[dst := buf ! src]) (src + 1) (dst + 1))
         else form_loop ngx (buf[dst := buf ! src]) (src + 1) (dst + 1))
      else (buf, dst))"
  by pat_completeness auto
termination
  by (relation "measure (\<lambda>(ngx, buf, src, dst). length buf - src)") auto

declare form_loop.simps [simp del]

definition form_field :: "ngx_lib \<Rightarrow> bytes \<Rightarrow> bytes option" where
  "form_field ngx body =
     (let key = NGX_HTTP_PGP_FIELD @ ''='' in
      if length body < length key \<or> \<not> starts_with key body then None
      else case form_loop ngx body (length key) (length key) of
        (buf, dst) \<Rightarrow> Some (take (dst - length key) (drop (length key) buf)))"

subsection \<open>The look at the message\<close>

definition clearsign_header :: bytes where
  "clearsign_header = ''-----BEGIN PGP SIGNED MESSAGE-----''"

definition verify_pre :: "bytes \<Rightarrow> 'p worker \<Rightarrow> ngx_rc \<times> 'p worker" where
  "verify_pre msg w =
     (let q = dropWhile (\<lambda>c. c = SPACE \<or> c = TAB \<or> c = CR \<or> c = LF) msg in
      if length q < length clearsign_header \<or> \<not> starts_with clearsign_header q then
        (NGX_DECLINED, log_error NGX_LOG_INFO ''pgp_auth: submission is not a clear-signed message'' w)
      else (NGX_OK, w))"

section \<open>What the loops compute\<close>

lemma body_size_Some: "body_size n bufs = Some k \<Longrightarrow> k = n + length (concat (map buf_bytes bufs))"
  by (induction n bufs rule: body_size.induct) auto

lemma copy_bufs_concat: "copy_bufs acc bufs = acc @ concat (map buf_bytes bufs)"
  by (induction acc bufs rule: copy_bufs.induct) auto

lemma read_body_frame:
  "w_nonce_zone (snd (snd (read_body ngx env r mx w))) = w_nonce_zone w"
  "w_failure_zone (snd (snd (read_body ngx env r mx w))) = w_failure_zone w"
  by (auto simp: read_body_def split: option.splits list.splits)

lemma verify_pre_frame:
  "w_nonce_zone (snd (verify_pre msg w)) = w_nonce_zone w" "w_failure_zone (snd (verify_pre msg w)) = w_failure_zone w"
  by (simp_all add: verify_pre_def Let_def)

lemma read_body_rc: "fst (read_body ngx env r mx w) \<in> {NGX_OK, NGX_DECLINED, NGX_ERROR}"
  by (auto simp: read_body_def split: option.splits list.splits)

text \<open>Reading the body succeeds exactly if there is one, in memory, within the cap; then it is the concatenation.\<close>

lemma read_body_OK:
  "read_body ngx env r mx w = (NGX_OK, body, w') \<longleftrightarrow>
     w' = w \<and> alloc_ok env Alloc_Body \<and>
     (\<exists>bufs. req_body r = Some bufs \<and> bufs \<noteq> [] \<and> body_size 0 bufs \<noteq> None \<and>
        body = concat (map buf_bytes bufs) \<and> length body \<le> mx)"
  by (auto simp: read_body_def copy_bufs_concat dest: body_size_Some split: option.splits list.splits)

text \<open>
  The value of the field, as a function of the encoded text; \<open>form_next\<close> is the byte that the
  text starts with and how many bytes of the text stand for it.
\<close>

definition form_next :: "ngx_lib \<Rightarrow> bytes \<Rightarrow> char \<times> nat" where
  "form_next ngx s = (case s of
       [] \<Rightarrow> (NUL, 1)
     | c # t \<Rightarrow>
         if c = CHR ''+'' then (SPACE, 1)
         else if c = CHR ''%'' then
           (case t of
              h # l # u \<Rightarrow>
                (case (ngx_hextoi1 ngx h, ngx_hextoi1 ngx l) of
                   (Some hi, Some lo) \<Rightarrow> (char_of (hi * 16 + lo), 3)
                 | _ \<Rightarrow> (c, 1))
            | _ \<Rightarrow> (c, 1))
         else (c, 1))"

lemma form_next_pos: "1 \<le> snd (form_next ngx s)"
  by (auto simp: form_next_def split: list.splits option.splits)

lemma form_next_le: "s \<noteq> [] \<Longrightarrow> snd (form_next ngx s) \<le> length s"
  by (auto simp: form_next_def split: list.splits option.splits)

function form_decode :: "ngx_lib \<Rightarrow> bytes \<Rightarrow> bytes" where
  "form_decode ngx s =
     (if s = [] \<or> hd s = CHR ''&'' then []
      else fst (form_next ngx s) # form_decode ngx (drop (snd (form_next ngx s)) s))"
  by pat_completeness auto
termination
  using form_next_pos by (relation "measure (\<lambda>(ngx, s). length s)") (auto simp: Suc_le_eq)

declare form_decode.simps [simp del]

lemma form_decode_len: "length (form_decode ngx s) \<le> length s"
proof (induction ngx s rule: form_decode.induct)
  case (1 ngx s)
  then show ?case
    using form_next_pos [of ngx s] form_next_le [of s ngx] by (subst form_decode.simps) (auto simp: Suc_le_eq)
qed

lemma form_loop_step:
  "form_loop ngx buf src dst =
     (if src < length buf \<and> buf ! src \<noteq> CHR ''&'' then
        (case form_next ngx (drop src buf) of (c, k) \<Rightarrow> form_loop ngx (buf[dst := c]) (src + k) (dst + 1))
      else (buf, dst))"
proof (cases "src < length buf \<and> buf ! src \<noteq> CHR ''&''")
  case True
  then have ds: "drop src buf = buf ! src # drop (src + 1) buf" by (simp add: Cons_nth_drop_Suc)
  show ?thesis
  proof (cases "src + 2 < length buf")
    case long: True
    then have "drop (src + 1) buf = buf ! (src + 1) # buf ! (src + 2) # drop (src + 3) buf"
      by (simp add: Cons_nth_drop_Suc numeral_2_eq_2 numeral_3_eq_3)
    then show ?thesis using True long
      by (subst form_loop.simps) (simp add: form_next_def ds split: option.splits)
  next
    case False
    then have short: "length (drop (src + 1) buf) < 2" by simp
    have "\<not> (\<exists>h l u. drop (src + 1) buf = h # l # u)"
      using short by (auto simp del: length_drop)
    then have "form_next ngx (drop src buf) = (if buf ! src = CHR ''+'' then SPACE else buf ! src, 1)"
      by (auto simp: form_next_def ds split: list.splits)
    then show ?thesis using True False by (subst form_loop.simps) simp
  qed
qed (subst form_loop.simps, auto)

text \<open>
  The loop never reads what it has overwritten, since \<open>dst\<close> stays behind \<open>src\<close>: it leaves the
  decoded value at the old \<open>dst\<close> and nothing before it changes.
\<close>

lemma form_loop_decode:
  assumes "dst \<le> src" "src \<le> length buf" "d = form_decode ngx (drop src buf)"
  shows "\<exists>buf'. form_loop ngx buf src dst = (buf', dst + length d) \<and> length buf' = length buf \<and>
     take dst buf' = take dst buf \<and> take (length d) (drop dst buf') = d"
  using assms
proof (induction "length buf - src" arbitrary: buf src dst d rule: less_induct)
  case less
  show ?case
  proof (cases "src < length buf \<and> buf ! src \<noteq> CHR ''&''")
    case False
    then have "drop src buf = [] \<or> hd (drop src buf) = CHR ''&''"
      by (cases "src < length buf") (auto simp: hd_drop_conv_nth)
    then have "d = []" using less.prems by (simp add: form_decode.simps [of ngx "drop src buf"])
    then show ?thesis using False by (subst form_loop_step) auto
  next
    case True
    obtain c k where ck: "form_next ngx (drop src buf) = (c, k)" by (meson surj_pair)
    have k: "1 \<le> k" "src + k \<le> length buf"
      using form_next_pos [of ngx "drop src buf"] form_next_le [of "drop src buf" ngx] True ck by auto
    define d' where "d' = form_decode ngx (drop (src + k) (buf[dst := c]))"
    have d: "d = c # d'"
      using less.prems True ck k
      by (simp add: form_decode.simps [of ngx "drop src buf"] hd_drop_conv_nth d'_def add.commute)
    have "length (buf[dst := c]) - (src + k) < length buf - src" using True k by simp
    from less.hyps [OF this, of "dst + 1" d', OF _ _ d'_def] obtain buf' where b: "length buf' = length buf"
        "form_loop ngx (buf[dst := c]) (src + k) (dst + 1) = (buf', dst + 1 + length d')"
        "take (dst + 1) buf' = take (dst + 1) (buf[dst := c])" "take (length d') (drop (dst + 1) buf') = d'"
      using less.prems k by auto
    have dst: "dst < length buf" using True less.prems by simp
    have "buf' ! dst = c" using b(1,3) dst by (metis less_add_one nth_list_update_eq nth_take)
    then have "drop dst buf' = c # drop (dst + 1) buf'" using dst b(1) by (simp add: Cons_nth_drop_Suc [symmetric])
    moreover have "take dst buf' = take dst (take (dst + 1) buf')" by simp
    then have "take dst buf' = take dst buf" unfolding b(3) by simp
    ultimately show ?thesis using b d ck True by (subst form_loop_step) auto
  qed
qed

text \<open>
  How a browser encodes a value (\<open>application/x-www-form-urlencoded\<close>): letters, digits and four marks as they are, a
  space as a plus, every other byte in hex.
\<close>

definition form_plain :: "char \<Rightarrow> bool" where
  "form_plain c \<longleftrightarrow> is_digit c \<or> (CHR ''A'' \<le> c \<and> c \<le> CHR ''Z'') \<or> (CHR ''a'' \<le> c \<and> c \<le> CHR ''z'')
     \<or> c = CHR ''*'' \<or> c = CHR ''-'' \<or> c = CHR ''.'' \<or> c = CHR ''_''"

definition form_encode1 :: "char \<Rightarrow> bytes" where
  "form_encode1 c =
     (if form_plain c then [c] else if c = SPACE then ''+''
      else [CHR ''%'', hex_upper (of_char c div 16), hex_upper (of_char c mod 16)])"

definition form_encode :: "bytes \<Rightarrow> bytes" where
  "form_encode s = concat (map form_encode1 s)"

lemma form_next_encode:
  assumes "ngx_core_api ngx"
  shows "form_next ngx (form_encode1 c @ s) = (c, length (form_encode1 c))"
proof -
  have "of_char c < (256 :: nat)" by simp
  then have lt: "of_char c div 16 < (16 :: nat)" "of_char c mod 16 < (16 :: nat)" by linarith+
  have "char_of (of_char c div 16 * 16 + of_char c mod 16 :: nat) = c" by (simp only: div_mult_mod_eq char_of_char)
  moreover have "form_plain c \<Longrightarrow> c \<noteq> CHR ''+'' \<and> c \<noteq> CHR ''%''"
    by (auto simp: form_plain_def is_digit_def less_eq_char_def)
  ultimately show ?thesis
    using ngx_core_api.hextoi_upper [OF assms lt(1)] ngx_core_api.hextoi_upper [OF assms lt(2)]
    by (auto simp: form_next_def form_encode1_def)
qed

lemma form_encode1_start: "form_encode1 c \<noteq> [] \<and> hd (form_encode1 c @ s) \<noteq> CHR ''&''"
  by (auto simp: form_encode1_def form_plain_def is_digit_def less_eq_char_def)

lemma form_decode_encode:
  assumes "ngx_core_api ngx" "rest = [] \<or> hd rest = CHR ''&''"
  shows "form_decode ngx (form_encode s @ rest) = s"
proof (induction s)
  case Nil
  then show ?case using assms(2) by (simp add: form_encode_def form_decode.simps)
next
  case (Cons c s)
  then show ?case
    using form_next_encode [OF assms(1), of c "form_encode s @ rest"] form_encode1_start [of c "form_encode s @ rest"]
    by (subst form_decode.simps) (auto simp: form_encode_def)
qed

section \<open>Properties\<close>

lemma form_field_decode:
  "form_field ngx (NGX_HTTP_PGP_FIELD @ ''='' @ s) = Some (form_decode ngx s)"
proof -
  let ?b = "NGX_HTTP_PGP_FIELD @ ''='' @ s"
  have len: "length NGX_HTTP_PGP_FIELD = 6" "drop 7 ?b = s" by (simp_all add: NGX_HTTP_PGP_FIELD_def)
  have "7 \<le> length ?b" by (simp add: NGX_HTTP_PGP_FIELD_def)
  from form_loop_decode [OF order_refl this refl, of ngx] len(2) show ?thesis
    by (auto simp: form_field_def Let_def len(1) starts_with_def)
qed

text \<open>
  C20: the in-place decoding of the form field is correct: it yields the decoding of the text after
  \<open>signed=\<close>, although it overwrites the buffer it reads from, never longer than that text, and
  what a browser encoded (up to an ampersand or the end) comes back as it was.
\<close>

theorem form_field_correct:
  assumes "ngx_core_api ngx"
  shows "form_field ngx body = (if starts_with (NGX_HTTP_PGP_FIELD @ ''='') body then Some (form_decode ngx (drop 7 body)) else None) \<and>
     length (form_decode ngx (drop 7 body)) \<le> length (drop 7 body) \<and>
     (rest = [] \<or> hd rest = CHR ''&'' \<longrightarrow>
        form_field ngx (NGX_HTTP_PGP_FIELD @ ''='' @ form_encode s @ rest) = Some s)"
proof -
  have len: "length (NGX_HTTP_PGP_FIELD @ ''='') = 7" by (simp add: NGX_HTTP_PGP_FIELD_def)
  have "form_field ngx body = Some (form_decode ngx (drop 7 body))" if "starts_with (NGX_HTTP_PGP_FIELD @ ''='') body"
    using form_field_decode [of ngx "drop 7 body"] starts_withD [OF that] len by simp
  moreover have "form_field ngx body = None" if "\<not> starts_with (NGX_HTTP_PGP_FIELD @ ''='') body"
    using that by (simp add: form_field_def)
  ultimately show ?thesis
    using form_decode_len [of ngx "drop 7 body"] form_field_decode form_decode_encode [OF assms] by simp
qed

theorem form_field_correct_witness:
  "form_field ngx_ref (''signed=a%0A+b%2'' @ ''&x'') = Some (form_decode ngx_ref ''a%0A+b%2&x'') \<and>
   form_field ngx_ref (NGX_HTTP_PGP_FIELD @ ''='' @ form_encode ''-----BEGIN PGP SIGNED MESSAGE-----'' @ ''&x=1'') =
     Some ''-----BEGIN PGP SIGNED MESSAGE-----''"
  using form_field_correct [OF ref_core.ngx_core_api_axioms, of "''signed=a%0A+b%2&x''" "''&x=1''"
      "''-----BEGIN PGP SIGNED MESSAGE-----''"]
  by (simp add: NGX_HTTP_PGP_FIELD_def starts_with_def)

end
