(* ===== verification/Login.thy ===== *)
theory Login
  imports Form
begin

text \<open>
  Logging in: the functions of \<open>ngx_http_pgp_auth_module.c\<close> that take a submitted form through gpg, the
  revocation check and the challenge check to a response, inline or on a thread, and the handler
  that nginx calls for every request.
\<close>

section \<open>Model\<close>

subsection \<open>Events and zones\<close>

definition log_event :: "request \<Rightarrow> bytes \<Rightarrow> bytes \<Rightarrow> bytes option \<Rightarrow> 'p worker \<Rightarrow> 'p worker" where
  "log_event r res reason fp w =
     log_error NGX_LOG_INFO
       (''pgp_auth_event: result='' @ quoted res @ '' reason='' @ quoted reason @ '' fpr='' @
        quoted (case fp of None \<Rightarrow> ''-'' | Some f \<Rightarrow> if f \<noteq> [] then f else ''-'') @ '' ip='' @ quoted (addr_text r)) w"

text \<open>The zones as the location configuration points to them.\<close>

definition nonce_zone_of :: "loc_conf \<Rightarrow> 'p worker \<Rightarrow> 'p nonce_zone option" where
  "nonce_zone_of plcf w = (if has_nonce_zone plcf then Some (w_nonce_zone w) else None)"

definition put_nonce_zone :: "'p nonce_zone option \<Rightarrow> 'p worker \<Rightarrow> 'p worker" where
  "put_nonce_zone zone w = (case zone of None \<Rightarrow> w | Some z \<Rightarrow> w\<lparr>w_nonce_zone := z\<rparr>)"

definition failure_zone_of :: "loc_conf \<Rightarrow> 'p worker \<Rightarrow> 'p throttle_zone option" where
  "failure_zone_of plcf w = (if has_failure_zone plcf then Some (w_failure_zone w) else None)"

definition put_failure_zone :: "'p throttle_zone option \<Rightarrow> 'p worker \<Rightarrow> 'p worker" where
  "put_failure_zone zone w = (case zone of None \<Rightarrow> w | Some z \<Rightarrow> w\<lparr>w_failure_zone := z\<rparr>)"

definition append_log :: "log \<Rightarrow> 'p worker \<Rightarrow> 'p worker" where
  "append_log l w = w\<lparr>w_log := w_log w @ l\<rparr>"

subsection \<open>After gpg\<close>

definition verify_post :: "ngx_lib \<Rightarrow> 'p ngx_shm \<Rightarrow> http_env \<Rightarrow> time_t \<Rightarrow> request \<Rightarrow> loc_conf \<Rightarrow> verify_result
    \<Rightarrow> 'p worker \<Rightarrow> response \<Rightarrow> ngx_rc \<times> verify_result \<times> 'p worker \<times> response" where
  "verify_post ngx shm env now r plcf vr w rs =
     (if \<not> valid vr then
        (NGX_DECLINED, vr,
         log_event r ''denied'' ''unknown_or_invalid_signature'' None
           (log_error NGX_LOG_INFO ''pgp_auth: signature not from a keyring key'' w), rs)
      else case is_revoked ngx plcf (env_revoc env) (fpr vr) w of
        (True, w) \<Rightarrow>
          (NGX_DECLINED, vr,
           log_event r ''denied'' ''revoked_key'' (Some (fpr vr))
             (log_error NGX_LOG_INFO ''pgp_auth: signing key is revoked'' w), rs)
      | (False, w) \<Rightarrow>
          (case (if chal_done vr then (chal_rc vr, vr, nonce_zone_of plcf w)
                 else validate_consume ngx shm (env_redis env) now plcf (binding r plcf) vr (nonce_zone_of plcf w)) of
             (rc, vr, zone) \<Rightarrow>
               let w = put_nonce_zone zone w in
               if rc \<noteq> NGX_OK then
                 (rc, vr,
                  log_event r (if rc = NGX_ERROR \<or> rc = NGX_ABORT then ''error'' else ''denied'')
                    (case chal_reason vr of None \<Rightarrow> ''unknown'' | Some s \<Rightarrow> s) (Some (fpr vr)) w, rs)
               else
                 (case grant ngx env now r plcf (fpr vr) rs of
                    (rc, rs) \<Rightarrow> (rc, vr, log_event r ''granted'' ''valid_signature'' (Some (fpr vr)) w, rs))))"

definition verify_finalize :: "ngx_lib \<Rightarrow> 'p ngx_shm \<Rightarrow> http_env \<Rightarrow> time_t \<Rightarrow> request \<Rightarrow> loc_conf \<Rightarrow> ngx_rc
    \<Rightarrow> 'p worker \<Rightarrow> response \<Rightarrow> 'p worker \<times> response" where
  "verify_finalize ngx shm env now r plcf rc w rs =
     (if rc = NGX_ABORT then (w, finalize_request (NGX_HTTP NGX_HTTP_SERVICE_UNAVAILABLE) rs)
      else if rc = NGX_ERROR then (w, finalize_request (NGX_HTTP NGX_HTTP_INTERNAL_SERVER_ERROR) rs)
      else case throttle_record ngx shm now (addr_text r) (failure_zone_of plcf w) (rc = NGX_HTTP NGX_HTTP_SEE_OTHER)
                  (failure_limit plcf) (failure_window plcf) (failure_ban_time plcf) of
        (zone, l) \<Rightarrow>
          let w = append_log l (put_failure_zone zone w) in
          if rc = NGX_HTTP NGX_HTTP_SEE_OTHER then
            (let rc = send_header_rc env; rs = rs\<lparr>rs_header_sent := True\<rparr> in
             if rc = NGX_ERROR \<or> above_ok rc then (w, finalize_request rc rs)
             else (w, finalize_request (send_special_rc env) rs))
          else (case send_challenge ngx env now r plcf True rs of (rc, rs) \<Rightarrow> (w, finalize_request rc rs)))"

subsection \<open>On a thread\<close>

text \<open>\<open>ngx_http_pgp_thread_ctx_t\<close>; the request and the configuration it points to are arguments of the functions below.\<close>

record thread_ctx =
  tctx_msg :: bytes
  tctx_ip :: bytes
  tctx_ua :: bytes
  tctx_gpg_rc :: ngx_rc
  tctx_vr :: verify_result

text \<open>
  What keeps a request alive during a verification on a thread: \<open>r->main->blocked\<close>, \<open>r->aio\<close>, the
  completion event with its watchdog timer, and the module context of the request.
\<close>

record async_req =
  blocked :: nat
  aio :: bool
  ev_timer_set :: bool
  ev_timedout :: bool
  req_ctx :: "thread_ctx option"

definition gpg_thread :: "ngx_lib \<Rightarrow> 'p ngx_shm \<Rightarrow> http_env \<Rightarrow> time_t \<Rightarrow> loc_conf \<Rightarrow> thread_ctx
    \<Rightarrow> 'p nonce_zone option \<Rightarrow> thread_ctx \<times> 'p nonce_zone option" where
  "gpg_thread ngx shm env now plcf tctx zone =
     (case gpg_verify ngx (env_gpg env) (gpg_path plcf) (keyring plcf) (tctx_msg tctx) (gpg_timeout plcf) (tctx_vr tctx) of
        (rc, vr, eff) \<Rightarrow>
          let tctx = tctx\<lparr>tctx_gpg_rc := rc, tctx_vr := vr\<rparr> in
          if rc = NGX_OK \<and> valid vr then
            (case validate_consume ngx shm (env_redis env) now plcf (tctx_ip tctx, tctx_ua tctx) vr zone of
               (rc, vr, zone) \<Rightarrow> (tctx\<lparr>tctx_vr := vr\<lparr>chal_rc := rc, chal_done := True\<rparr>\<rparr>, zone))
          else (tctx, zone))"

definition verify_thread_done :: "ngx_lib \<Rightarrow> 'p ngx_shm \<Rightarrow> http_env \<Rightarrow> time_t \<Rightarrow> request \<Rightarrow> loc_conf
    \<Rightarrow> 'p worker \<Rightarrow> response \<Rightarrow> async_req \<Rightarrow> 'p worker \<times> response \<times> async_req" where
  "verify_thread_done ngx shm env now r plcf w rs a =
     (if ev_timedout a then
        (log_error NGX_LOG_ALERT ''pgp_auth: gpg verification thread is taking too long'' w, rs,
         a\<lparr>ev_timedout := False\<rparr>)
      else
        let a = a\<lparr>ev_timer_set := False, blocked := blocked a - 1, aio := False\<rparr>;
            tctx = the (req_ctx a);
            (l, vr) = gpg_log_diag (w_log w) (tctx_vr tctx);
            w = w\<lparr>w_log := l\<rparr>;
            (rc, vr, w, rs) =
              (if tctx_gpg_rc tctx \<noteq> NGX_OK then (NGX_ERROR, vr, w, rs) else verify_post ngx shm env now r plcf vr w rs);
            (w, rs) = verify_finalize ngx shm env now r plcf rc w rs
        in (w, rs, a\<lparr>req_ctx := Some (tctx\<lparr>tctx_vr := vr\<rparr>)\<rparr>))"

subsection \<open>The submission\<close>

text \<open>The synchronous tail of \<open>ngx_http_pgp_auth_submit\<close>.\<close>

definition verify_inline :: "ngx_lib \<Rightarrow> 'p ngx_shm \<Rightarrow> http_env \<Rightarrow> time_t \<Rightarrow> request \<Rightarrow> loc_conf \<Rightarrow> bytes \<Rightarrow> verify_result
    \<Rightarrow> 'p worker \<Rightarrow> response \<Rightarrow> 'p worker \<times> response" where
  "verify_inline ngx shm env now r plcf msg vr w rs =
     (let (rc, vr, eff) = gpg_verify ngx (env_gpg env) (gpg_path plcf) (keyring plcf) msg (gpg_timeout plcf) vr;
          (rc, vr, w, rs) =
            (if rc \<noteq> NGX_OK then (NGX_ERROR, vr, w, rs) else verify_post ngx shm env now r plcf vr w rs);
          (l, vr) = gpg_log_diag (w_log w) vr
      in verify_finalize ngx shm env now r plcf rc (w\<lparr>w_log := l\<rparr>) rs)"

text \<open>The result is allocated without being cleared; the task is posted if there is a pool and it accepts it.\<close>

definition fresh_vr :: "http_env \<Rightarrow> verify_result" where
  "fresh_vr env = (palloc_vr env)\<lparr>chal_done := False\<rparr>"

definition start_verification :: "ngx_lib \<Rightarrow> 'p ngx_shm \<Rightarrow> http_env \<Rightarrow> time_t \<Rightarrow> request \<Rightarrow> loc_conf \<Rightarrow> bytes
    \<Rightarrow> 'p worker \<Rightarrow> response \<Rightarrow> async_req \<Rightarrow> 'p worker \<times> response \<times> async_req" where
  "start_verification ngx shm env now r plcf msg w rs a =
     (if \<not> alloc_ok env Alloc_Result then
        (w, finalize_request (NGX_HTTP NGX_HTTP_INTERNAL_SERVER_ERROR) rs, a)
      else if thread_pool plcf \<and> alloc_ok env Alloc_Task \<and> task_post_ok env then
        (w, rs,
         a\<lparr>ev_timer_set := True, blocked := blocked a + 1, aio := True,
           req_ctx := Some \<lparr>tctx_msg = msg, tctx_ip = fst (binding r plcf), tctx_ua = snd (binding r plcf),
             tctx_gpg_rc = NGX_ERROR, tctx_vr = fresh_vr env\<rparr>\<rparr>)
      else
        let w = (if thread_pool plcf
                 then log_error NGX_LOG_WARN
                   (''pgp_auth: could not post gpg to the thread pool; '' @ ''verifying synchronously'') w
                 else w) in
        case verify_inline ngx shm env now r plcf msg (fresh_vr env) w rs of (w, rs) \<Rightarrow> (w, rs, a))"

definition auth_submit :: "ngx_lib \<Rightarrow> 'p ngx_shm \<Rightarrow> http_env \<Rightarrow> time_t \<Rightarrow> request \<Rightarrow> loc_conf
    \<Rightarrow> 'p worker \<Rightarrow> response \<Rightarrow> async_req \<Rightarrow> 'p worker \<times> response \<times> async_req" where
  "auth_submit ngx shm env now r plcf w rs a =
     (let rs = rs\<lparr>rs_keepalive := False\<rparr>;
          answer = (\<lambda>rc w. case verify_finalize ngx shm env now r plcf rc w rs of (w, rs) \<Rightarrow> (w, rs, a)) in
      case read_body ngx env r (max_body_size plcf) w of (rc, body, w) \<Rightarrow>
        if rc = NGX_ERROR then answer NGX_ERROR (log_event r ''error'' ''body_alloc_failed'' None w)
        else if rc \<noteq> NGX_OK then answer NGX_DECLINED (log_event r ''denied'' ''unreadable_body'' None w)
        else
          let msg = (case form_field ngx body of None \<Rightarrow> body | Some m \<Rightarrow> m) in
          case verify_pre msg w of (rc, w) \<Rightarrow>
            if rc \<noteq> NGX_OK then answer NGX_DECLINED (log_event r ''denied'' ''not_clear_signed'' None w)
            else start_verification ngx shm env now r plcf msg w rs a)"

subsection \<open>The handler\<close>

definition special_response :: "ngx_rc \<Rightarrow> bool" where
  "special_response rc \<longleftrightarrow> (case rc of NGX_HTTP n \<Rightarrow> 300 \<le> n | _ \<Rightarrow> False)"

text \<open>
  \<open>ngx_http_pgp_auth_handler\<close>.  The second component says whether \<open>ngx_http_pgp_auth_submit\<close> was
  registered to run when the body has been read.
\<close>

definition auth_handler :: "ngx_lib \<Rightarrow> http_env \<Rightarrow> time_t \<Rightarrow> request \<Rightarrow> loc_conf \<Rightarrow> 'p worker \<Rightarrow> response
    \<Rightarrow> ngx_rc \<times> bool \<times> 'p worker \<times> response" where
  "auth_handler ngx env now r plcf w rs =
     (if \<not> enable plcf then (NGX_DECLINED, False, w, rs)
      else case check_session ngx env now r plcf w of (rc, w) \<Rightarrow>
        if rc = NGX_OK then (NGX_DECLINED, False, w, rs)
        else if \<not> req_is_main r then
          (NGX_HTTP NGX_HTTP_FORBIDDEN, False, log_event r ''denied'' ''unauthenticated_subrequest'' None w, rs)
        else case throttle_is_banned ngx now (addr_text r) (failure_zone_of plcf w) of (rc, l) \<Rightarrow>
          let w = append_log l w in
          if rc \<noteq> NGX_OK then (NGX_HTTP NGX_HTTP_TOO_MANY_REQUESTS, False, w, rs)
          else if req_is_post r \<and> req_args r \<noteq> [] \<and> req_arg r then
            (if req_content_length r > int (max_body_size plcf) \<or> (req_content_length r < 0 \<and> req_chunked r) then
               (NGX_HTTP NGX_HTTP_REQUEST_ENTITY_TOO_LARGE, False,
                log_error NGX_LOG_INFO
                  (''pgp_auth: auth body too large/unbounded (len='' @ ngx_fmt_T ngx (req_content_length r) @ '', cap='' @
                   ngx_fmt_T ngx (int (max_body_size plcf)) @ '')'') w, rs)
             else let rc = read_body_rc env in
               if special_response rc then (rc, False, w, rs) else (NGX_DONE, True, w, rs))
          else let rc = discard_rc env in
            if rc \<noteq> NGX_OK then (rc, False, w, rs)
            else case send_challenge ngx env now r plcf False rs of
              (rc, rs) \<Rightarrow> (NGX_DONE, False, w, finalize_request rc rs))"

section \<open>What a login decides\<close>

text \<open>
  The decision on a submission, apart from how it is carried out: a fault of the server with the
  status it answers, a refusal, or a session for a fingerprint.
\<close>

datatype outcome = Fault nat | Refused | Granted bytes

definition rc_outcome :: "ngx_rc \<Rightarrow> bytes \<Rightarrow> outcome" where
  "rc_outcome rc fp =
     (if rc = NGX_ABORT then Fault NGX_HTTP_SERVICE_UNAVAILABLE
      else if rc = NGX_ERROR then Fault NGX_HTTP_INTERNAL_SERVER_ERROR
      else if rc = NGX_HTTP NGX_HTTP_SEE_OTHER then Granted fp else Refused)"

definition can_grant :: "ngx_lib \<Rightarrow> http_env \<Rightarrow> time_t \<Rightarrow> request \<Rightarrow> loc_conf \<Rightarrow> bytes \<Rightarrow> bool" where
  "can_grant ngx env now r plcf fp \<longleftrightarrow>
     list_all (alloc_ok env) [Alloc_Session, Alloc_Set_Cookie, Alloc_Cookie_Value, Alloc_Cache_Header, Alloc_Location] \<and>
     hmac_hex ngx env r plcf ''sess'' (session_payload ngx (session_exp plcf now) fp) \<noteq> None"

text \<open>The message of a submission, \<open>None\<close> if there is none that looks clear-signed.\<close>

definition submitted :: "ngx_lib \<Rightarrow> request \<Rightarrow> loc_conf \<Rightarrow> bytes option" where
  "submitted ngx r plcf =
     (case req_body r of
        None \<Rightarrow> None
      | Some bufs \<Rightarrow>
          let body = concat (map buf_bytes bufs); msg = (case form_field ngx body of None \<Rightarrow> body | Some m \<Rightarrow> m) in
          if bufs = [] \<or> body_size 0 bufs = None \<or> max_body_size plcf < length body \<or>
             \<not> starts_with clearsign_header (dropWhile (\<lambda>c. c = SPACE \<or> c = TAB \<or> c = CR \<or> c = LF) msg)
          then None else Some msg)"

definition verdict :: "ngx_lib \<Rightarrow> http_env \<Rightarrow> time_t \<Rightarrow> request \<Rightarrow> loc_conf \<Rightarrow> 'p worker \<Rightarrow> verify_result \<Rightarrow> ngx_rc \<Rightarrow> outcome" where
  "verdict ngx env now r plcf w vr chal =
     (if \<not> valid vr \<or> fst (is_revoked ngx plcf (env_revoc env) (fpr vr) w) then Refused
      else if chal \<noteq> NGX_OK then rc_outcome chal (fpr vr)
      else if can_grant ngx env now r plcf (fpr vr) then Granted (fpr vr)
      else Fault NGX_HTTP_INTERNAL_SERVER_ERROR)"

text \<open>The effect of an outcome on the client's throttle entry and on the response.\<close>

definition carried_out :: "ngx_lib \<Rightarrow> 'p ngx_shm \<Rightarrow> http_env \<Rightarrow> time_t \<Rightarrow> request \<Rightarrow> loc_conf \<Rightarrow> outcome
    \<Rightarrow> 'p throttle_zone \<Rightarrow> response \<Rightarrow> 'p throttle_zone \<Rightarrow> response \<Rightarrow> bool" where
  "carried_out ngx shm env now r plcf oc z rs z' rs' \<longleftrightarrow>
     (case oc of
        Fault c \<Rightarrow> z' = z \<and> rs_final rs' = rs_final rs @ [NGX_HTTP c] \<and> rs_body rs' = rs_body rs \<and>
          rs_header_sent rs' = rs_header_sent rs
      | Refused \<Rightarrow>
          z' = (if has_failure_zone plcf
                then zone_record ngx shm (failure_limit plcf) (failure_window plcf) (failure_ban_time plcf) z now (addr_text r) False
                else z) \<and>
          rs' = finalize_request (fst (send_challenge ngx env now r plcf True rs))
                  (snd (send_challenge ngx env now r plcf True rs))
      | Granted fp \<Rightarrow>
          z' = (if has_failure_zone plcf
                then zone_record ngx shm (failure_limit plcf) (failure_window plcf) (failure_ban_time plcf) z now (addr_text r) True
                else z) \<and>
          rs_status rs' = NGX_HTTP_SEE_OTHER \<and> rs_header_sent rs' \<and> rs_body rs' = rs_body rs \<and>
          rs_final rs' = rs_final rs @
            [if send_header_rc env = NGX_ERROR \<or> above_ok (send_header_rc env) then send_header_rc env else send_special_rc env] \<and>
          (\<exists>mac. hmac_hex ngx env r plcf ''sess'' (session_payload ngx (session_exp plcf now) fp) = Some mac \<and>
             rs_headers rs' = rs_headers rs @
               [(''Set-Cookie'', cookie_value plcf (session_payload ngx (session_exp plcf now) fp) mac),
                (''Cache-Control'', ''no-store''), (''Location'', req_uri r)]))"

lemma grant_rc_iff:
  "fst (grant ngx env now r plcf fp rs) = (if can_grant ngx env now r plcf fp then NGX_HTTP 303 else NGX_ERROR)"
  by (auto simp: grant_def can_grant_def Let_def split: option.splits)

lemma grant_frame:
  "grant ngx env now r plcf fp rs = (rc, rs') \<Longrightarrow>
   rs_body rs' = rs_body rs \<and> rs_header_sent rs' = rs_header_sent rs \<and> rs_final rs' = rs_final rs \<and>
   rs_keepalive rs' = rs_keepalive rs"
  by (auto simp: grant_def push_header_def Let_def split: if_splits option.splits)

lemma validate_rc:
  "fst (validate_consume ngx shm redis now plcf bnd vr zone) \<in> {NGX_OK, NGX_DECLINED, NGX_ABORT, NGX_ERROR}"
  by (auto simp: validate_consume_def Let_def split: option.splits prod.splits)

text \<open>Diagnostics and the reason are all that the challenge check writes to a verification result.\<close>

definition same_verdict :: "verify_result \<Rightarrow> verify_result \<Rightarrow> bool" where
  "same_verdict vr vr' \<longleftrightarrow> valid vr' = valid vr \<and> fpr vr' = fpr vr \<and> plaintext vr' = plaintext vr \<and> chal_done vr' = chal_done vr"

lemma same_verdict_simps [simp]:
  "same_verdict vr vr" "same_verdict vr (defer_diag vr' l m) = same_verdict vr vr'"
  "same_verdict vr (set_reason why vr') = same_verdict vr vr'"
  by (simp_all add: same_verdict_def set_reason_def)

lemma nonce_memory_verdict: "nonce_memory ngx shm now vr zone nonce exp = (rc, vr', zone') \<Longrightarrow> same_verdict vr vr'"
  by (auto simp: nonce_memory_def Let_def split: option.splits if_splits prod.splits)

lemma nonce_tls_verdict: "nonce_tls lib vr host verify ca name net = (ses, vr', net') \<Longrightarrow> same_verdict vr vr'"
  by (auto simp: nonce_tls_def Let_def split: if_splits prod.splits bool.splits)

lemma redis_dialogue_verdict: "redis_dialogue ngx vr nc nonce ttl ssl net = (rc, vr', net') \<Longrightarrow> same_verdict vr vr'"
  by (auto simp: redis_dialogue_def redis_set_reply_def Let_def split: if_splits prod.splits option.splits)

lemma same_verdict_trans: "same_verdict a b \<Longrightarrow> same_verdict b c \<Longrightarrow> same_verdict a c"
  by (simp add: same_verdict_def)

lemma nonce_redis_verdict: "nonce_redis ngx env now vr nc nonce exp = (rc, vr', net') \<Longrightarrow> same_verdict vr vr'"
  by (auto simp: nonce_redis_def Let_def split: if_splits prod.splits option.splits bool.splits
      dest: nonce_tls_verdict redis_dialogue_verdict intro: same_verdict_trans)

lemma check_and_set_verdict:
  "nonce_check_and_set ngx shm env now vr nc zone nonce exp = (rc, vr', zone', net') \<Longrightarrow> same_verdict vr vr'"
  by (auto simp: nonce_check_and_set_def Let_def split: nonce_storage.splits if_splits prod.splits
      dest: nonce_memory_verdict nonce_redis_verdict intro: same_verdict_trans)

lemma validate_verdict:
  "validate_consume ngx shm redis now plcf bnd vr zone = (rc, vr', zone') \<Longrightarrow> same_verdict vr vr'"
  by (auto simp: validate_consume_def Let_def split: option.splits if_splits prod.splits dest: check_and_set_verdict)

lemma list_contents_cong:
  "w_revoc_cache w = w_revoc_cache w' \<Longrightarrow> w_revoc_mtime w = w_revoc_mtime w' \<Longrightarrow>
   list_contents plcf env w = list_contents plcf env w'"
  by (simp add: list_contents_def split: option.split)

lemma is_revoked_log [simp]:
  "fst (is_revoked ngx plcf env fp (log_error l m w)) = fst (is_revoked ngx plcf env fp w)"
  "fst (is_revoked ngx plcf env fp (w\<lparr>w_log := lg\<rparr>)) = fst (is_revoked ngx plcf env fp w)"
  using list_contents_cong [of "log_error l m w" w plcf env] list_contents_cong [of "w\<lparr>w_log := lg\<rparr>" w plcf env]
  by (simp_all add: is_revoked_contents)

lemma zone_of_simps [simp]:
  "w_failure_zone (put_nonce_zone z w) = w_failure_zone w" "w_nonce_zone (put_failure_zone z' w) = w_nonce_zone w"
  "w_failure_zone (append_log l w) = w_failure_zone w" "w_nonce_zone (append_log l w) = w_nonce_zone w"
  "w_failure_zone (log_event r a b c w) = w_failure_zone w" "w_nonce_zone (log_event r a b c w) = w_nonce_zone w"
  by (simp_all add: put_nonce_zone_def put_failure_zone_def append_log_def log_event_def split: option.splits)

lemma nonce_zone_of_cong: "w_nonce_zone w = w_nonce_zone w' \<Longrightarrow> nonce_zone_of plcf w = nonce_zone_of plcf w'"
  by (simp add: nonce_zone_of_def)

text \<open>The verdict of the challenge check that a verification result carries or that is made now.\<close>

definition chal_verdict :: "ngx_lib \<Rightarrow> 'p ngx_shm \<Rightarrow> http_env \<Rightarrow> time_t \<Rightarrow> request \<Rightarrow> loc_conf \<Rightarrow> verify_result \<Rightarrow> 'p worker \<Rightarrow> ngx_rc" where
  "chal_verdict ngx shm env now r plcf vr w =
     (if chal_done vr then chal_rc vr
      else fst (validate_consume ngx shm (env_redis env) now plcf (binding r plcf) vr (nonce_zone_of plcf w)))"

lemma chal_verdict_fresh:
  "\<not> chal_done vr \<Longrightarrow> chal_verdict ngx shm env now r plcf vr w =
     fst (validate_consume ngx shm (env_redis env) now plcf (binding r plcf) vr (nonce_zone_of plcf w))"
  by (simp add: chal_verdict_def)

lemma verify_post_outcome:
  assumes "verify_post ngx shm env now r plcf vr w rs = (rc, vr', w', rs')"
    and "valid vr \<Longrightarrow> chal_verdict ngx shm env now r plcf vr w \<in> {NGX_OK, NGX_DECLINED, NGX_ABORT, NGX_ERROR}"
  shows "rc_outcome rc (fpr vr) = verdict ngx env now r plcf w vr (chal_verdict ngx shm env now r plcf vr w)"
    and "w_failure_zone w' = w_failure_zone w"
    and "grant ngx env now r plcf (fpr vr) rs = (rc, rs') \<or> rs' = rs \<and> rc \<noteq> NGX_HTTP 303"
proof -
  let ?chal = "chal_verdict ngx shm env now r plcf vr w"
  have "rc_outcome rc (fpr vr) = verdict ngx env now r plcf w vr ?chal \<and> w_failure_zone w' = w_failure_zone w \<and>
      (grant ngx env now r plcf (fpr vr) rs = (rc, rs') \<or> rs' = rs \<and> rc \<noteq> NGX_HTTP 303)"
  proof (cases "valid vr \<and> \<not> fst (is_revoked ngx plcf (env_revoc env) (fpr vr) w)")
    case False
    obtain b w1 where b: "is_revoked ngx plcf (env_revoc env) (fpr vr) w = (b, w1)" by (metis surj_pair)
    with False is_revoked_frame(2) [of ngx plcf "env_revoc env" "fpr vr" w]
    have "rc = NGX_DECLINED \<and> rs' = rs \<and> w_failure_zone w' = w_failure_zone w"
      using assms(1) by (cases "valid vr") (auto simp: verify_post_def)
    then show ?thesis using False by (auto simp: verdict_def rc_outcome_def)
  next
    case True
    obtain w1 where w1: "is_revoked ngx plcf (env_revoc env) (fpr vr) w = (False, w1)" using True by (metis prod.collapse)
    have same: "w_nonce_zone w1 = w_nonce_zone w" "w_failure_zone w1 = w_failure_zone w"
      using is_revoked_frame [of ngx plcf "env_revoc env" "fpr vr" w] w1 by auto
    define q where "q = (if chal_done vr then (chal_rc vr, vr, nonce_zone_of plcf w1)
       else validate_consume ngx shm (env_redis env) now plcf (binding r plcf) vr (nonce_zone_of plcf w1))"
    obtain c vr1 z1 where q: "q = (c, vr1, z1)" by (metis prod_cases3)
    have c: "c = ?chal" "fpr vr1 = fpr vr"
      using q validate_verdict [of ngx shm "env_redis env" now plcf "binding r plcf" vr "nonce_zone_of plcf w1" c vr1 z1]
      by (auto simp: q_def chal_verdict_def same_verdict_def nonce_zone_of_cong [OF same(1), of plcf] split: if_splits)
    obtain grc grs where g: "grant ngx env now r plcf (fpr vr) rs = (grc, grs)" by (metis surj_pair)
    have grc: "grc = (if can_grant ngx env now r plcf (fpr vr) then NGX_HTTP 303 else NGX_ERROR)"
      using grant_rc_iff [of ngx env now r plcf "fpr vr" rs] g by simp
    have "(rc, w', rs') = (if c \<noteq> NGX_OK then (c, w', rs) else (grc, w', grs))" "w_failure_zone w' = w_failure_zone w"
      using assms(1) True w1 q [unfolded q_def] c(2) g same(2) by (auto simp: verify_post_def Let_def split: if_splits)
    then show ?thesis
      using True g grc assms(2) unfolding c(1) by (auto simp: verdict_def rc_outcome_def split: if_splits)
  qed
  then show "rc_outcome rc (fpr vr) = verdict ngx env now r plcf w vr ?chal" "w_failure_zone w' = w_failure_zone w"
    "grant ngx env now r plcf (fpr vr) rs = (rc, rs') \<or> rs' = rs \<and> rc \<noteq> NGX_HTTP 303" by blast+
qed

lemma throttle_record_zone:
  "fst (throttle_record ngx shm now ip (Some z) ok limit window ban_time) =
     Some (zone_record ngx shm limit window ban_time z now ip ok)"
  by (auto simp: zone_record_def throttle_record_def Let_def split: option.splits prod.splits if_splits)

lemma verify_finalize_zone:
  assumes "verify_finalize ngx shm env now r plcf rc w rs = (w', rs')" "rc \<noteq> NGX_ABORT" "rc \<noteq> NGX_ERROR"
  shows "w_failure_zone w' =
     (if has_failure_zone plcf
      then zone_record ngx shm (failure_limit plcf) (failure_window plcf) (failure_ban_time plcf) (w_failure_zone w) now
        (addr_text r) (rc = NGX_HTTP 303)
      else w_failure_zone w)"
proof -
  obtain zone l where t: "throttle_record ngx shm now (addr_text r) (failure_zone_of plcf w) (rc = NGX_HTTP 303)
      (failure_limit plcf) (failure_window plcf) (failure_ban_time plcf) = (zone, l)" by (metis surj_pair)
  have "zone = (if has_failure_zone plcf
      then Some (zone_record ngx shm (failure_limit plcf) (failure_window plcf) (failure_ban_time plcf) (w_failure_zone w)
        now (addr_text r) (rc = NGX_HTTP 303)) else None)"
    using t throttle_record_zone [of ngx shm now "addr_text r" "w_failure_zone w" "rc = NGX_HTTP 303"
        "failure_limit plcf" "failure_window plcf" "failure_ban_time plcf"]
    by (auto simp: failure_zone_of_def throttle_record_def [of _ _ _ _ None])
  moreover have "w_failure_zone w' = w_failure_zone (put_failure_zone zone w)"
    using assms t by (auto simp: verify_finalize_def Let_def split: if_splits prod.splits)
  ultimately show ?thesis by (simp add: put_failure_zone_def)
qed

lemma verify_finalize_carried:
  assumes f: "verify_finalize ngx shm env now r plcf rc w rs1 = (w', rs')"
    and g: "grant ngx env now r plcf fp rs = (rc, rs1) \<or> rs1 = rs \<and> rc \<noteq> NGX_HTTP 303"
  shows "carried_out ngx shm env now r plcf (rc_outcome rc fp) (w_failure_zone w) rs (w_failure_zone w') rs'"
proof -
  have grc: "grant ngx env now r plcf fp rs = (rc, rs1) \<Longrightarrow> rc \<in> {NGX_ERROR, NGX_HTTP 303}"
    using grant_rc [of ngx env now r plcf fp rs] by simp
  have frame: "rs_body rs1 = rs_body rs" "rs_header_sent rs1 = rs_header_sent rs" "rs_final rs1 = rs_final rs"
    using g grant_frame [of ngx env now r plcf fp rs rc rs1] by auto
  consider "rc = NGX_ABORT \<or> rc = NGX_ERROR" | "rc = NGX_HTTP 303" | "rc \<noteq> NGX_ABORT" "rc \<noteq> NGX_ERROR" "rc \<noteq> NGX_HTTP 303"
    by blast
  then show ?thesis
  proof cases
    case 1
    then show ?thesis
      using f frame by (auto simp: verify_finalize_def carried_out_def rc_outcome_def finalize_request_def)
  next
    case 2
    with g have "grant ngx env now r plcf fp rs = (NGX_HTTP 303, rs1)" by auto
    from grant_effect [OF this] obtain mac where
      "hmac_hex ngx env r plcf ''sess'' (session_payload ngx (session_exp plcf now) fp) = Some mac"
      "rs_headers rs1 = rs_headers rs @ [(''Set-Cookie'', cookie_value plcf (session_payload ngx (session_exp plcf now) fp) mac),
        (''Cache-Control'', ''no-store''), (''Location'', req_uri r)]" "rs_status rs1 = 303" .
    moreover have "rs' = finalize_request (if send_header_rc env = NGX_ERROR \<or> above_ok (send_header_rc env)
        then send_header_rc env else send_special_rc env) (rs1\<lparr>rs_header_sent := True\<rparr>)"
      using f 2 by (auto simp: verify_finalize_def Let_def split: prod.splits if_splits)
    ultimately show ?thesis
      using verify_finalize_zone [OF f] 2 frame by (auto simp: carried_out_def rc_outcome_def finalize_request_def)
  next
    case 3
    with g grc have "rs1 = rs" by auto
    moreover have "rs' = finalize_request (fst (send_challenge ngx env now r plcf True rs1)) (snd (send_challenge ngx env now r plcf True rs1))"
      using f 3 by (auto simp: verify_finalize_def Let_def split: prod.splits)
    ultimately show ?thesis
      using verify_finalize_zone [OF f 3(1,2)] 3 by (simp add: carried_out_def rc_outcome_def)
  qed
qed

lemma gpg_verdict_chal_done [simp]: "chal_done (gpg_verdict ngx env kr out tr r) = chal_done r"
  by (simp add: gpg_verdict_def Let_def)

lemma gpg_verify_chal_done:
  "gpg_verify ngx env gp kr msg t res0 = (rc, res, eff) \<Longrightarrow> chal_done res = chal_done res0"
  by (auto simp: gpg_verify_def gpg_run_def Let_def split: if_splits option.splits prod.splits)

definition body_readable :: "request \<Rightarrow> loc_conf \<Rightarrow> bool" where
  "body_readable r plcf \<longleftrightarrow> (case req_body r of
       None \<Rightarrow> False
     | Some bufs \<Rightarrow> bufs \<noteq> [] \<and> body_size 0 bufs \<noteq> None \<and> length (concat (map buf_bytes bufs)) \<le> max_body_size plcf)"

text \<open>The outcome of a submission.\<close>

definition login_outcome :: "ngx_lib \<Rightarrow> 'p ngx_shm \<Rightarrow> http_env \<Rightarrow> time_t \<Rightarrow> request \<Rightarrow> loc_conf \<Rightarrow> 'p worker \<Rightarrow> outcome" where
  "login_outcome ngx shm env now r plcf w =
     (if body_readable r plcf \<and> \<not> alloc_ok env Alloc_Body then Fault NGX_HTTP_INTERNAL_SERVER_ERROR
      else case submitted ngx r plcf of
        None \<Rightarrow> Refused
      | Some msg \<Rightarrow>
          if \<not> alloc_ok env Alloc_Result then Fault NGX_HTTP_INTERNAL_SERVER_ERROR
          else case gpg_verify ngx (env_gpg env) (gpg_path plcf) (keyring plcf) msg (gpg_timeout plcf) (fresh_vr env) of
            (rc, vr, eff) \<Rightarrow>
              if rc \<noteq> NGX_OK then Fault NGX_HTTP_INTERNAL_SERVER_ERROR
              else verdict ngx env now r plcf w vr
                (fst (validate_consume ngx shm (env_redis env) now plcf (binding r plcf) vr (nonce_zone_of plcf w))))"

text \<open>What the submission handler makes of the body, in terms of the submitted message.\<close>

lemma read_body_cases:
  assumes "read_body ngx env r (max_body_size plcf) w = (rc, body, w')"
  shows "rc = (if \<not> body_readable r plcf then NGX_DECLINED else if alloc_ok env Alloc_Body then NGX_OK else NGX_ERROR)"
    and "w_failure_zone w' = w_failure_zone w"
    and "rc = NGX_OK \<Longrightarrow> w' = w \<and> (\<exists>bufs. req_body r = Some bufs \<and> body = concat (map buf_bytes bufs))"
  using assms
  by (auto simp: read_body_def body_readable_def copy_bufs_concat dest: body_size_Some split: option.splits list.splits if_splits)

lemma verify_pre_cases:
  "verify_pre msg w = (rc, w') \<Longrightarrow>
   rc = (if starts_with clearsign_header (dropWhile (\<lambda>c. c = SPACE \<or> c = TAB \<or> c = CR \<or> c = LF) msg)
         then NGX_OK else NGX_DECLINED) \<and>
   (rc = NGX_OK \<longrightarrow> w' = w) \<and> w_failure_zone w' = w_failure_zone w"
  using starts_withD [of clearsign_header] by (auto simp: verify_pre_def Let_def starts_with_def split: if_splits)

lemma submitted_unreadable: "\<not> body_readable r plcf \<Longrightarrow> submitted ngx r plcf = None"
  by (auto simp: submitted_def body_readable_def Let_def split: option.splits)

lemma submitted_readable:
  "body_readable r plcf \<Longrightarrow> req_body r = Some bufs \<Longrightarrow> body = concat (map buf_bytes bufs) \<Longrightarrow>
   msg = (case form_field ngx body of None \<Rightarrow> body | Some m \<Rightarrow> m) \<Longrightarrow>
   submitted ngx r plcf =
     (if starts_with clearsign_header (dropWhile (\<lambda>c. c = SPACE \<or> c = TAB \<or> c = CR \<or> c = LF) msg) then Some msg else None)"
  by (auto simp: submitted_def body_readable_def Let_def)

lemma push_sec_keepalive: "push_sec_headers env i hs rs = (ok, rs') \<Longrightarrow> rs_keepalive rs' = rs_keepalive rs \<and> rs_final rs' = rs_final rs"
  by (induction env i hs rs rule: push_sec_headers.induct) (auto simp: push_header_def split: if_splits)

lemma send_challenge_frame:
  "send_challenge ngx env now r plcf failed rs = (rc, rs') \<Longrightarrow> rs_keepalive rs' = rs_keepalive rs \<and> rs_final rs' = rs_final rs"
  by (auto simp: send_challenge_def Let_def push_header_def split: option.splits if_splits prod.splits bool.splits
      dest!: push_sec_keepalive)

lemma verify_finalize_keepalive:
  "verify_finalize ngx shm env now r plcf rc w rs = (w', rs') \<Longrightarrow> rs_keepalive rs' = rs_keepalive rs"
  using send_challenge_frame [of ngx env now r plcf True rs]
  by (auto simp: verify_finalize_def finalize_request_def Let_def split: if_splits prod.splits)

lemma verify_post_keepalive:
  "verify_post ngx shm env now r plcf vr w rs = (rc, vr', w', rs') \<Longrightarrow> rs_keepalive rs' = rs_keepalive rs"
  by (auto simp: verify_post_def Let_def split: if_splits prod.splits bool.splits dest: grant_frame)

lemma verify_inline_carried:
  assumes "verify_inline ngx shm env now r plcf msg vr w rs = (w', rs')" "\<not> chal_done vr"
    and "gpg_verify ngx (env_gpg env) (gpg_path plcf) (keyring plcf) msg (gpg_timeout plcf) vr = (grc, gvr, eff)"
  shows "carried_out ngx shm env now r plcf
     (if grc \<noteq> NGX_OK then Fault 500 else verdict ngx env now r plcf w gvr (chal_verdict ngx shm env now r plcf gvr w))
     (w_failure_zone w) rs (w_failure_zone w') rs'"
    and "rs_keepalive rs' = rs_keepalive rs"
proof -
  obtain rc vr1 w1 rs1 where p: "(if grc \<noteq> NGX_OK then (NGX_ERROR, gvr, w, rs) else verify_post ngx shm env now r plcf gvr w rs) =
      (rc, vr1, w1, rs1)" by (metis prod_cases4)
  have f: "verify_finalize ngx shm env now r plcf rc (w1\<lparr>w_log := fst (gpg_log_diag (w_log w1) vr1)\<rparr>) rs1 = (w', rs')"
    using assms(1,3) p by (auto simp: verify_inline_def Let_def split: prod.splits)
  have ch: "chal_verdict ngx shm env now r plcf gvr w \<in> {NGX_OK, NGX_DECLINED, NGX_ABORT, NGX_ERROR}"
    using gpg_verify_chal_done [OF assms(3)] assms(2) validate_rc by (simp add: chal_verdict_fresh)
  show "rs_keepalive rs' = rs_keepalive rs"
    using verify_finalize_keepalive [OF f] p verify_post_keepalive [of ngx shm env now r plcf gvr w rs rc vr1 w1 rs1]
    by (auto split: if_splits)
  show "carried_out ngx shm env now r plcf
     (if grc \<noteq> NGX_OK then Fault 500 else verdict ngx env now r plcf w gvr (chal_verdict ngx shm env now r plcf gvr w))
     (w_failure_zone w) rs (w_failure_zone w') rs'"
  proof (cases "grc = NGX_OK")
    case True
    with p have "verify_post ngx shm env now r plcf gvr w rs = (rc, vr1, w1, rs1)" by simp
    note post = verify_post_outcome [OF this ch]
    from verify_finalize_carried [OF f, of "fpr gvr" rs] post True show ?thesis by simp
  next
    case False
    with verify_finalize_carried [OF f, of "[]" rs] p show ?thesis by (simp add: rc_outcome_def)
  qed
qed

lemma login_outcome_log: "login_outcome ngx shm env now r plcf (log_error l m w) = login_outcome ngx shm env now r plcf w"
  by (simp add: login_outcome_def verdict_def nonce_zone_of_def split: option.split prod.split)

lemma verify_inline_outcome:
  assumes "verify_inline ngx shm env now r plcf msg (fresh_vr env) w rs = (w', rs')"
    and "submitted ngx r plcf = Some msg" "alloc_ok env Alloc_Result" "alloc_ok env Alloc_Body"
  shows "carried_out ngx shm env now r plcf (login_outcome ngx shm env now r plcf w) (w_failure_zone w) rs (w_failure_zone w') rs'"
    and "rs_keepalive rs' = rs_keepalive rs"
proof -
  obtain grc gvr eff where g: "gpg_verify ngx (env_gpg env) (gpg_path plcf) (keyring plcf) msg (gpg_timeout plcf)
      (fresh_vr env) = (grc, gvr, eff)" by (metis prod_cases3)
  have fresh: "\<not> chal_done (fresh_vr env)" by (simp add: fresh_vr_def)
  have "login_outcome ngx shm env now r plcf w =
      (if grc \<noteq> NGX_OK then Fault 500 else verdict ngx env now r plcf w gvr (chal_verdict ngx shm env now r plcf gvr w))"
    using assms(2-) g fresh gpg_verify_chal_done [OF g] by (simp add: login_outcome_def chal_verdict_fresh)
  then show "carried_out ngx shm env now r plcf (login_outcome ngx shm env now r plcf w) (w_failure_zone w) rs (w_failure_zone w') rs'"
    "rs_keepalive rs' = rs_keepalive rs" using verify_inline_carried [OF assms(1) fresh g] by simp_all
qed

lemma answer_carried:
  assumes "verify_finalize ngx shm env now r plcf rc w1 rs = (w', rs')" "w_failure_zone w1 = w_failure_zone w"
    and "rc \<noteq> NGX_HTTP 303" "\<not> rs_keepalive rs"
  shows "\<not> rs_keepalive rs' \<and> carried_out ngx shm env now r plcf (rc_outcome rc []) (w_failure_zone w) rs (w_failure_zone w') rs'"
  using verify_finalize_carried [OF assms(1), of "[]" rs] verify_finalize_keepalive [OF assms(1)] assms(2-) by simp

text \<open>Submissions that do not get as far as gpg.\<close>

lemma submit_unreadable:
  assumes sub: "auth_submit ngx shm env now r plcf w rs a = (w', rs', a')"
    and "\<not> body_readable r plcf \<or> \<not> alloc_ok env Alloc_Body"
  shows "a' = a \<and> \<not> rs_keepalive rs' \<and>
     carried_out ngx shm env now r plcf (login_outcome ngx shm env now r plcf w) (w_failure_zone w)
       (rs\<lparr>rs_keepalive := False\<rparr>) (w_failure_zone w') rs'"
proof -
  obtain rc body w1 where b: "read_body ngx env r (max_body_size plcf) w = (rc, body, w1)" by (metis prod_cases3)
  note rb = read_body_cases(1,2) [OF b]
  have o: "login_outcome ngx shm env now r plcf w = rc_outcome rc []" "rc \<noteq> NGX_OK" "rc \<noteq> NGX_HTTP 303"
    using rb(1) assms(2) by (auto simp: login_outcome_def rc_outcome_def submitted_unreadable)
  then have a: "a' = a" and f: "verify_finalize ngx shm env now r plcf rc
      (log_event r (if rc = NGX_ERROR then ''error'' else ''denied'')
        (if rc = NGX_ERROR then ''body_alloc_failed'' else ''unreadable_body'') None w1) (rs\<lparr>rs_keepalive := False\<rparr>) = (w', rs')"
    using sub b rb(1) by (auto simp: auth_submit_def Let_def split: if_splits prod.splits)
  show ?thesis using answer_carried [OF f, of w] o rb(2) a by simp
qed

lemma submit_readable:
  assumes "body_readable r plcf" "alloc_ok env Alloc_Body"
  obtains w1 where "auth_submit ngx shm env now r plcf w rs a =
      (case submitted ngx r plcf of
         None \<Rightarrow> (case verify_finalize ngx shm env now r plcf NGX_DECLINED
             (log_event r ''denied'' ''not_clear_signed'' None w1) (rs\<lparr>rs_keepalive := False\<rparr>) of (w, rs) \<Rightarrow> (w, rs, a))
       | Some msg \<Rightarrow> start_verification ngx shm env now r plcf msg w (rs\<lparr>rs_keepalive := False\<rparr>) a)"
    "w_failure_zone w1 = w_failure_zone w"
proof -
  obtain rc body w0 where b: "read_body ngx env r (max_body_size plcf) w = (rc, body, w0)" by (metis prod_cases3)
  have rc: "rc = NGX_OK" using read_body_cases(1) [OF b] assms by simp
  obtain bufs where w0: "w0 = w" and bufs: "req_body r = Some bufs" "body = concat (map buf_bytes bufs)"
    using read_body_cases(3) [OF b rc] by auto
  define msg where "msg = (case form_field ngx body of None \<Rightarrow> body | Some m \<Rightarrow> m)"
  obtain prc w1 where pre: "verify_pre msg w = (prc, w1)" by (metis surj_pair)
  note s = submitted_readable [OF assms(1) bufs msg_def] verify_pre_cases [OF pre]
  show ?thesis
    using b rc w0 pre s by (intro that [of w1]) (auto simp: auth_submit_def Let_def msg_def [symmetric] split: if_splits)
qed

text \<open>A submission is answered at once, or its verification was posted to the thread pool.\<close>

definition posted :: "ngx_lib \<Rightarrow> http_env \<Rightarrow> request \<Rightarrow> loc_conf \<Rightarrow> async_req \<Rightarrow> async_req \<Rightarrow> bool" where
  "posted ngx env r plcf a a' \<longleftrightarrow>
     thread_pool plcf \<and> alloc_ok env Alloc_Task \<and> task_post_ok env \<and> alloc_ok env Alloc_Result \<and> alloc_ok env Alloc_Body \<and>
     body_readable r plcf \<and>
     (\<exists>msg. submitted ngx r plcf = Some msg \<and>
        a' = a\<lparr>ev_timer_set := True, blocked := blocked a + 1, aio := True,
               req_ctx := Some \<lparr>tctx_msg = msg, tctx_ip = fst (binding r plcf), tctx_ua = snd (binding r plcf),
                 tctx_gpg_rc = NGX_ERROR, tctx_vr = fresh_vr env\<rparr>\<rparr>)"

lemma submit_cases:
  assumes sub: "auth_submit ngx shm env now r plcf w rs a = (w', rs', a')"
  shows "a' = a \<and> \<not> rs_keepalive rs' \<and>
     carried_out ngx shm env now r plcf (login_outcome ngx shm env now r plcf w) (w_failure_zone w)
       (rs\<lparr>rs_keepalive := False\<rparr>) (w_failure_zone w') rs' \<or>
     posted ngx env r plcf a a' \<and> w' = w \<and> rs' = rs\<lparr>rs_keepalive := False\<rparr>"
proof (cases "body_readable r plcf \<and> alloc_ok env Alloc_Body")
  case False
  then show ?thesis using submit_unreadable [OF sub] by blast
next
  case True
  let ?rs = "rs\<lparr>rs_keepalive := False\<rparr>"
  from submit_readable [of r plcf env ngx shm now w rs a] True obtain w1 where
    s: "(w', rs', a') = (case submitted ngx r plcf of
         None \<Rightarrow> (case verify_finalize ngx shm env now r plcf NGX_DECLINED
             (log_event r ''denied'' ''not_clear_signed'' None w1) ?rs of (w, rs) \<Rightarrow> (w, rs, a))
       | Some msg \<Rightarrow> start_verification ngx shm env now r plcf msg w ?rs a)"
    and w1: "w_failure_zone w1 = w_failure_zone w" unfolding sub by metis
  show ?thesis
  proof (cases "submitted ngx r plcf")
    case None
    then have "login_outcome ngx shm env now r plcf w = rc_outcome NGX_DECLINED []" "a' = a"
      and "verify_finalize ngx shm env now r plcf NGX_DECLINED (log_event r ''denied'' ''not_clear_signed'' None w1) ?rs = (w', rs')"
      using s True by (auto simp: login_outcome_def rc_outcome_def split: prod.splits)
    then show ?thesis using answer_carried [of ngx shm env now r plcf NGX_DECLINED _ ?rs w' rs' w] w1 by simp
  next
    case (Some msg)
    then have st: "start_verification ngx shm env now r plcf msg w ?rs a = (w', rs', a')" using s by simp
    consider "\<not> alloc_ok env Alloc_Result" | "alloc_ok env Alloc_Result" "thread_pool plcf \<and> alloc_ok env Alloc_Task \<and> task_post_ok env"
      | "alloc_ok env Alloc_Result" "\<not> (thread_pool plcf \<and> alloc_ok env Alloc_Task \<and> task_post_ok env)" by blast
    then show ?thesis
    proof cases
      case 1
      then show ?thesis
        using st Some True by (auto simp: start_verification_def login_outcome_def carried_out_def finalize_request_def)
    next
      case 2
      then show ?thesis using st Some True by (auto simp: start_verification_def posted_def)
    next
      case 3
      define w3 where "w3 = (if thread_pool plcf then log_error NGX_LOG_WARN
          (''pgp_auth: could not post gpg to the thread pool; '' @ ''verifying synchronously'') w else w)"
      have a: "a' = a" and inl: "verify_inline ngx shm env now r plcf msg (fresh_vr env) w3 ?rs = (w', rs')"
        using st 3 by (auto simp: start_verification_def Let_def w3_def split: prod.splits)
      have "w_failure_zone w3 = w_failure_zone w" "login_outcome ngx shm env now r plcf w = login_outcome ngx shm env now r plcf w3"
        by (simp_all add: w3_def login_outcome_log)
      then show ?thesis using verify_inline_outcome [OF inl Some 3(1)] True a by simp
    qed
  qed
qed

subsection \<open>Verification on a thread\<close>

lemma gpg_log_diag_simps [simp]:
  "valid (snd (gpg_log_diag l vr)) = valid vr" "fpr (snd (gpg_log_diag l vr)) = fpr vr"
  "chal_done (snd (gpg_log_diag l vr)) = chal_done vr" "chal_rc (snd (gpg_log_diag l vr)) = chal_rc vr"
  by (simp_all add: gpg_log_diag_def)

text \<open>What a verification on a thread knows when it is done: the decision on a challenge goes with a good signature.\<close>

definition thread_done_ok :: "thread_ctx \<Rightarrow> bool" where
  "thread_done_ok tctx \<longleftrightarrow>
     (tctx_gpg_rc tctx = NGX_OK \<and> valid (tctx_vr tctx) \<longrightarrow>
        chal_done (tctx_vr tctx) \<and> chal_rc (tctx_vr tctx) \<in> {NGX_OK, NGX_DECLINED, NGX_ABORT, NGX_ERROR})"

lemma gpg_thread_result:
  assumes "gpg_thread ngx shm env now plcf tctx zone = (tctx', zone')"
    and "gpg_verify ngx (env_gpg env) (gpg_path plcf) (keyring plcf) (tctx_msg tctx) (gpg_timeout plcf) (tctx_vr tctx) = (rc, vr, eff)"
  shows "tctx_gpg_rc tctx' = rc" "thread_done_ok tctx'" "valid (tctx_vr tctx') = valid vr" "fpr (tctx_vr tctx') = fpr vr"
    and "tctx_msg tctx' = tctx_msg tctx"
    and "rc = NGX_OK \<Longrightarrow> valid vr \<Longrightarrow> (chal_rc (tctx_vr tctx'), zone') =
      (\<lambda>(c, v, z). (c, z)) (validate_consume ngx shm (env_redis env) now plcf (tctx_ip tctx, tctx_ua tctx) vr zone)"
    and "\<not> (rc = NGX_OK \<and> valid vr) \<Longrightarrow> zone' = zone"
    and "tctx_ip tctx' = tctx_ip tctx" "tctx_ua tctx' = tctx_ua tctx"
proof -
  obtain c v z where v: "validate_consume ngx shm (env_redis env) now plcf (tctx_ip tctx, tctx_ua tctx) vr zone = (c, v, z)"
    by (metis prod_cases3)
  note same = validate_verdict [OF v, unfolded same_verdict_def]
  have c: "c \<in> {NGX_OK, NGX_DECLINED, NGX_ABORT, NGX_ERROR}"
    using validate_rc [of ngx shm "env_redis env" now plcf "(tctx_ip tctx, tctx_ua tctx)" vr zone] v by simp
  have r: "(tctx', zone') = (if rc = NGX_OK \<and> valid vr
      then (tctx\<lparr>tctx_gpg_rc := rc, tctx_vr := v\<lparr>chal_rc := c, chal_done := True\<rparr>\<rparr>, z)
      else (tctx\<lparr>tctx_gpg_rc := rc, tctx_vr := vr\<rparr>, zone))"
    using assms v by (auto simp: gpg_thread_def Let_def split: if_splits)
  show "tctx_gpg_rc tctx' = rc" "thread_done_ok tctx'" "valid (tctx_vr tctx') = valid vr" "fpr (tctx_vr tctx') = fpr vr"
    "tctx_msg tctx' = tctx_msg tctx"
    "rc = NGX_OK \<Longrightarrow> valid vr \<Longrightarrow> (chal_rc (tctx_vr tctx'), zone') =
      (\<lambda>(c, v, z). (c, z)) (validate_consume ngx shm (env_redis env) now plcf (tctx_ip tctx, tctx_ua tctx) vr zone)"
    "\<not> (rc = NGX_OK \<and> valid vr) \<Longrightarrow> zone' = zone" "tctx_ip tctx' = tctx_ip tctx" "tctx_ua tctx' = tctx_ua tctx"
    using r same c v by (auto simp: thread_done_ok_def split: if_splits)
qed

lemma thread_done_carried:
  assumes "verify_thread_done ngx shm env now r plcf w rs a = (w', rs', a')" "\<not> ev_timedout a"
    and "req_ctx a = Some tctx" "thread_done_ok tctx"
  shows "carried_out ngx shm env now r plcf
     (if tctx_gpg_rc tctx \<noteq> NGX_OK then Fault 500
      else verdict ngx env now r plcf w (tctx_vr tctx) (chal_rc (tctx_vr tctx)))
     (w_failure_zone w) rs (w_failure_zone w') rs'"
    and "blocked a' = blocked a - 1" "\<not> aio a'" "\<not> ev_timer_set a'" "rs_keepalive rs' = rs_keepalive rs"
proof -
  define vr where "vr = snd (gpg_log_diag (w_log w) (tctx_vr tctx))"
  define w1 where "w1 = w\<lparr>w_log := fst (gpg_log_diag (w_log w) (tctx_vr tctx))\<rparr>"
  obtain rc vr2 w2 rs2 where p: "(if tctx_gpg_rc tctx \<noteq> NGX_OK then (NGX_ERROR, vr, w1, rs)
      else verify_post ngx shm env now r plcf vr w1 rs) = (rc, vr2, w2, rs2)" by (metis prod_cases4)
  have f: "verify_finalize ngx shm env now r plcf rc w2 rs2 = (w', rs')"
    and "blocked a' = blocked a - 1 \<and> \<not> aio a' \<and> \<not> ev_timer_set a'"
    using assms(1-3) p by (auto simp: verify_thread_done_def Let_def vr_def w1_def split: prod.splits if_splits)
  then show "blocked a' = blocked a - 1" "\<not> aio a'" "\<not> ev_timer_set a'" by auto
  show "rs_keepalive rs' = rs_keepalive rs"
    using verify_finalize_keepalive [OF f] p verify_post_keepalive [of ngx shm env now r plcf vr w1 rs rc vr2 w2 rs2]
    by (auto split: if_splits)
  have w1: "w_failure_zone w1 = w_failure_zone w" "nonce_zone_of plcf w1 = nonce_zone_of plcf w" by (simp_all add: w1_def nonce_zone_of_def)
  have v: "tctx_gpg_rc tctx = NGX_OK \<Longrightarrow> verdict ngx env now r plcf w1 vr (chal_verdict ngx shm env now r plcf vr w1) =
      verdict ngx env now r plcf w (tctx_vr tctx) (chal_rc (tctx_vr tctx))"
    using assms(4) by (auto simp: verdict_def vr_def thread_done_ok_def chal_verdict_def w1_def)
  show "carried_out ngx shm env now r plcf
     (if tctx_gpg_rc tctx \<noteq> NGX_OK then Fault 500
      else verdict ngx env now r plcf w (tctx_vr tctx) (chal_rc (tctx_vr tctx)))
     (w_failure_zone w) rs (w_failure_zone w') rs'"
  proof (cases "tctx_gpg_rc tctx = NGX_OK")
    case True
    have "valid vr \<Longrightarrow> chal_verdict ngx shm env now r plcf vr w1 \<in> {NGX_OK, NGX_DECLINED, NGX_ABORT, NGX_ERROR}"
      using True assms(4) by (auto simp: chal_verdict_def vr_def thread_done_ok_def)
    moreover have "verify_post ngx shm env now r plcf vr w1 rs = (rc, vr2, w2, rs2)" using p True by simp
    ultimately show ?thesis
      using verify_finalize_carried [OF f, of "fpr vr" rs] verify_post_outcome [of ngx shm env now r plcf vr w1 rs rc vr2 w2 rs2]
        v True w1 by simp
  next
    case False
    then show ?thesis using verify_finalize_carried [OF f, of "[]" rs] p w1 by (simp add: rc_outcome_def)
  qed
qed

lemma is_revoked_frameD:
  "is_revoked ngx plcf env fp w = (b, w') \<Longrightarrow> w_nonce_zone w' = w_nonce_zone w \<and> w_failure_zone w' = w_failure_zone w"
  using is_revoked_frame [of ngx plcf env fp w] by simp

lemma check_session_frame:
  "w_nonce_zone (snd (check_session ngx env now r plcf w)) = w_nonce_zone w"
  "w_failure_zone (snd (check_session ngx env now r plcf w)) = w_failure_zone w"
  by (auto simp: check_session_def Let_def split: option.splits prod.splits bool.splits dest!: is_revoked_frameD)

lemma handler_resp:
  assumes "auth_handler ngx env now r plcf w rs = (rc, wants, w', rs')"
  shows "wants \<Longrightarrow> rs' = rs"
    and "rs' = rs \<or> (\<exists>rc rs1. send_challenge ngx env now r plcf False rs = (rc, rs1) \<and> rs' = finalize_request rc rs1)"
    and "w_nonce_zone w' = w_nonce_zone w" "w_failure_zone w' = w_failure_zone w"
  using assms check_session_frame [of ngx env now r plcf w]
  by (auto simp: auth_handler_def Let_def split: if_splits prod.splits)

lemma handler_cases:
  assumes "auth_handler ngx env now r plcf w rs = (rc, wants, w', rs')" "discard_rc env \<noteq> NGX_DECLINED"
  shows "(rc = NGX_DECLINED \<longleftrightarrow> \<not> enable plcf \<or> fst (check_session ngx env now r plcf w) = NGX_OK) \<and>
     (rc = NGX_DECLINED \<longrightarrow> rs' = rs \<and> \<not> wants) \<and>
     (rc \<noteq> NGX_DECLINED \<and> \<not> req_is_main r \<longrightarrow> rc = NGX_HTTP NGX_HTTP_FORBIDDEN \<and> rs' = rs \<and> \<not> wants) \<and>
     (rc \<noteq> NGX_DECLINED \<and> req_is_main r \<and> has_failure_zone plcf \<and> zone_banned ngx (w_failure_zone w) now (addr_text r) \<longrightarrow>
        rc = NGX_HTTP NGX_HTTP_TOO_MANY_REQUESTS \<and> rs' = rs \<and> \<not> wants) \<and>
     (wants \<longrightarrow> rc = NGX_DONE \<and> rs' = rs \<and> req_is_main r \<and> req_is_post r \<and> req_arg r \<and>
        req_content_length r \<le> int (max_body_size plcf) \<and> (req_content_length r < 0 \<longrightarrow> \<not> req_chunked r)) \<and>
     w_nonce_zone w' = w_nonce_zone w \<and> w_failure_zone w' = w_failure_zone w"
proof -
  obtain crc w1 where c: "check_session ngx env now r plcf w = (crc, w1)" by (metis surj_pair)
  note frame = check_session_frame [of ngx env now r plcf w, unfolded c]
  obtain brc l where b: "throttle_is_banned ngx now (addr_text r) (failure_zone_of plcf w1) = (brc, l)" by (metis surj_pair)
  have banned: "has_failure_zone plcf \<Longrightarrow> zone_banned ngx (w_failure_zone w) now (addr_text r) \<Longrightarrow> brc = NGX_DECLINED"
    using b frame by (simp add: zone_banned_def failure_zone_of_def)
  show ?thesis
    using assms c b frame banned
    by (auto simp: auth_handler_def Let_def special_response_def split: if_splits prod.splits)
qed

lemma carried_out_final:
  "carried_out ngx shm env now r plcf oc z rs z' rs' \<Longrightarrow> \<exists>x. rs_final rs' = rs_final rs @ [x]"
  using send_challenge_frame [OF surjective_pairing, of ngx env now r plcf True rs]
  by (auto simp: carried_out_def finalize_request_def split: outcome.splits)

section \<open>Properties\<close>

text \<open>
  C4: a submission that is verified in the worker is answered according to the login decision: the
  message must be readable and clear-signed, gpg must accept it, the key must not be revoked, and the
  challenge must be valid and unused.  A refusal is counted against the client's address and answered
  with a new challenge, a success clears the address and sends the session cookie, and a
  fault of the server (no memory, gpg or HMAC failure: 500; no answer from the nonce store: 503) is not
  counted.  The request is finalized exactly once.
\<close>

theorem submit_carries_out_decision:
  assumes "auth_submit ngx shm env now r plcf w rs a = (w', rs', a')"
    and "\<not> (thread_pool plcf \<and> alloc_ok env Alloc_Task \<and> task_post_ok env)"
  shows "a' = a \<and> \<not> rs_keepalive rs' \<and>
     carried_out ngx shm env now r plcf (login_outcome ngx shm env now r plcf w) (w_failure_zone w)
       (rs\<lparr>rs_keepalive := False\<rparr>) (w_failure_zone w') rs'"
  using submit_cases [OF assms(1)] assms(2) by (auto simp: posted_def)

text \<open>The sample client sends a signed challenge; gpg reports a good signature over it.\<close>

definition sample_signed :: bytes where
  "sample_signed = clearsign_header @ [LF]"

definition sample_post :: request where
  "sample_post = (sample_req ''curl'' None)\<lparr>req_is_post := True, req_args := ''__pgp_auth=1'', req_arg := True,
     req_content_length := 35, req_body := Some [In_Memory sample_signed]\<rparr>"

definition sample_login :: "bytes \<Rightarrow> http_env" where
  "sample_login revoked = (sample_http revoked)\<lparr>env_gpg := sample_env sample_status (sample_challenge @ [LF]) True\<rparr>"

definition sample_async :: async_req where
  "sample_async = \<lparr>blocked = 0, aio = False, ev_timer_set = False, ev_timedout = False, req_ctx = None\<rparr>"

lemma sample_login_env [simp]:
  "env_gpg (sample_login l) = sample_env sample_status (sample_challenge @ [LF]) True"
  "env_revoc (sample_login l) = sample_list l" "alloc_ok (sample_login l) x" "task_post_ok (sample_login l)"
  "send_header_rc (sample_login l) = NGX_OK" "send_special_rc (sample_login l) = NGX_OK" "env_redis (sample_login l) = sample_redis []"
  by (simp_all add: sample_login_def sample_http_def)

lemma sample_submitted: "submitted ngx_ref sample_post sample_conf = Some sample_signed"
  by (simp add: submitted_def sample_post_def sample_conf_def sample_signed_def form_field_def starts_with_def
      clearsign_header_def NGX_HTTP_PGP_FIELD_def)

lemma sample_challenge_len: "length sample_challenge \<le> 200" "sample_challenge \<noteq> []"
proof -
  obtain mac where mac: "hmac_raw ngx_ref (secret sample_conf) ''chal'' (keyring sample_conf) (fst sample_bnd)
      (snd sample_bnd) sample_payload = Some mac" using hmac_ref_total by blast
  then have "length mac = 64" using ref_core.hmac_len ref_core.hex_dump_len by (auto simp: hmac_raw_def split: option.splits)
  moreover have "length (ngx_fmt_T ngx_ref 1120) \<le> 4"
    using fmt_nat_len [of 1120 4] by (simp add: ref_core.fmt_decimal)
  ultimately have "length (sample_payload @ [PIPE] @ mac) \<le> 200"
    by (simp add: sample_payload_def challenge_payload_def sample_nonce_len)
  then show "length sample_challenge \<le> 200" "sample_challenge \<noteq> []" by (simp_all add: sample_challenge_def mac)
qed

lemma sample_gpg:
  "\<exists>vr eff. gpg_verify ngx_ref (sample_env sample_status (sample_challenge @ [LF]) True) ''/usr/bin/gpg''
       ''/etc/nginx/pubkeys.gpg'' sample_signed 2000 res0 = (NGX_OK, vr, eff) \<and>
     valid vr \<and> fpr vr = sample_fpr \<and> plaintext vr = sample_challenge @ [LF]"
proof -
  let ?env = "sample_env sample_status (sample_challenge @ [LF]) True"
  have calls: "mkdtemp ?env t = Some ''/tmp/ngx_pgp_a1B2c3''" "open_msg_ok ?env p" "write_rets ?env = [16384]"
    "pipe_ok ?env" "fork_ok ?env" "start_clock ?env = (10, 0)" "open_plain_ok ?env"
    "plain_io ?env = [FRead (sample_challenge @ [LF])]" for t p
    by (simp_all add: sample_env_def)
  have plain: "plain_read_loop [FRead (sample_challenge @ [LF])] [] = (sample_challenge @ [LF], False)"
    using sample_challenge_len by (simp add: NGX_HTTP_PGP_PLAINTEXT_MAX_def)
  have wr: "write_msg (length sample_signed) [16384]" by (simp add: sample_signed_def clearsign_header_def eval_nat_numeral)
  have dl: "now_ms (10, 0) + 2000 = 12000" by (simp add: now_ms_def)
  show ?thesis
    unfolding gpg_verify_def gpg_run_def Let_def calls plain dl sample_loop
    by (simp add: wr calls PATH_MAX_def gpg_run_def Let_def dl sample_loop plain gpg_verdict_def sample_parse)
qed

lemma sample_conf_fields [simp]:
  "gpg_path sample_conf = ''/usr/bin/gpg''" "keyring sample_conf = ''/etc/nginx/pubkeys.gpg''" "gpg_timeout sample_conf = 2000"
  "thread_pool sample_conf = False" "enable sample_conf" "has_nonce_zone sample_conf" "has_failure_zone sample_conf"
  "max_body_size sample_conf = 16384"
  by (simp_all add: sample_conf_def)

lemma sample_binding: "binding sample_post sample_conf = sample_bnd"
  by (simp add: sample_bnd_def binding_def sample_post_def sample_req_def)

lemma sample_can_grant: "can_grant ngx_ref (sample_login l) now r plcf fp"
  using hmac_ref_total by (simp add: can_grant_def hmac_hex_raw)

lemma sample_outcome:
  "login_outcome ngx_ref shm_ref (sample_login []) 1010 sample_post sample_conf sample_worker = Granted sample_fpr"
proof -
  obtain vr eff where g: "gpg_verify ngx_ref (sample_env sample_status (sample_challenge @ [LF]) True) ''/usr/bin/gpg''
       ''/etc/nginx/pubkeys.gpg'' sample_signed 2000 (fresh_vr (sample_login [])) = (NGX_OK, vr, eff)"
     "valid vr" "fpr vr = sample_fpr" "plaintext vr = sample_challenge @ [LF]" using sample_gpg by blast
  have zone: "nonce_zone_of sample_conf sample_worker = Some sample_zone" by (simp add: nonce_zone_of_def sample_worker_def)
  have "\<not> fst (is_revoked ngx_ref sample_conf (sample_list []) sample_fpr sample_worker)"
    using sample_no_list [of ngx_ref sample_conf] by (simp add: sample_http_def)
  then show ?thesis
    using g sample_validate [OF g(4)] sample_can_grant zone
    by (simp add: login_outcome_def sample_submitted sample_binding verdict_def)
qed

theorem submit_carries_out_decision_witness:
  "rs_status (fst (snd (auth_submit ngx_ref shm_ref (sample_login []) 1010 sample_post sample_conf sample_worker
     sample_resp sample_async))) = NGX_HTTP_SEE_OTHER"
  using submit_carries_out_decision [OF surjective_pairing3 [of "auth_submit ngx_ref shm_ref (sample_login []) 1010 sample_post
      sample_conf sample_worker sample_resp sample_async"]]
  by (simp add: sample_outcome carried_out_def)

text \<open>The outcome of a message that is verified on a thread: gpg and the challenge in one environment, the rest in another.\<close>

definition async_outcome :: "ngx_lib \<Rightarrow> 'p ngx_shm \<Rightarrow> loc_conf \<Rightarrow> request \<Rightarrow> bytes \<Rightarrow> verify_result
    \<Rightarrow> http_env \<Rightarrow> time_t \<Rightarrow> 'p nonce_zone option \<Rightarrow> http_env \<Rightarrow> time_t \<Rightarrow> 'p worker \<Rightarrow> outcome" where
  "async_outcome ngx shm plcf r msg vr0 env1 t1 zone env2 t2 w2 =
     (case gpg_verify ngx (env_gpg env1) (gpg_path plcf) (keyring plcf) msg (gpg_timeout plcf) vr0 of
        (rc, vr, eff) \<Rightarrow>
          if rc \<noteq> NGX_OK then Fault NGX_HTTP_INTERNAL_SERVER_ERROR
          else verdict ngx env2 t2 r plcf w2 vr
            (fst (validate_consume ngx shm (env_redis env1) t1 plcf (binding r plcf) vr zone)))"

lemma async_done:
  assumes "gpg_thread ngx shm env1 t1 plcf tctx zone = (tctx', zone')" "(tctx_ip tctx, tctx_ua tctx) = binding r plcf"
    and "verify_thread_done ngx shm env2 t2 r plcf w2 rs a = (w', rs', a')" "\<not> ev_timedout a" "req_ctx a = Some tctx'"
  shows "carried_out ngx shm env2 t2 r plcf
     (async_outcome ngx shm plcf r (tctx_msg tctx) (tctx_vr tctx) env1 t1 zone env2 t2 w2) (w_failure_zone w2) rs (w_failure_zone w') rs'"
proof -
  obtain rc vr eff where g: "gpg_verify ngx (env_gpg env1) (gpg_path plcf) (keyring plcf) (tctx_msg tctx) (gpg_timeout plcf)
      (tctx_vr tctx) = (rc, vr, eff)" by (metis prod_cases3)
  note t = gpg_thread_result [OF assms(1) g]
  have "(if tctx_gpg_rc tctx' \<noteq> NGX_OK then Fault 500
      else verdict ngx env2 t2 r plcf w2 (tctx_vr tctx') (chal_rc (tctx_vr tctx'))) =
    async_outcome ngx shm plcf r (tctx_msg tctx) (tctx_vr tctx) env1 t1 zone env2 t2 w2"
    using g t(1,3,4,6) assms(2) by (auto simp: async_outcome_def verdict_def split: prod.splits)
  then show ?thesis using thread_done_carried(1) [OF assms(3-5) t(2)] by simp
qed

text \<open>
  C5: a verification on a thread ends like one in the worker.  When a submission is posted to the
  pool, nothing is answered and the request is pinned; when the thread has run gpg and the challenge
  check (at its own time) and the completion handler runs, the request is answered by the
  same decision, counted or not counted in the same way, and unpinned.  If nothing happened in
  between, the decision is the one of the synchronous path.
\<close>

theorem async_carries_out_decision:
  assumes "auth_submit ngx shm env0 t0 r plcf w0 rs a = (w1, rs1, a1)" "req_ctx a = None" "req_ctx a1 = Some tctx" "\<not> ev_timedout a"
    and "gpg_thread ngx shm env1 t1 plcf tctx zone = (tctx', zone')"
    and "verify_thread_done ngx shm env2 t2 r plcf w2 rs1 (a1\<lparr>req_ctx := Some tctx'\<rparr>) = (w', rs', a')"
  shows "rs1 = rs\<lparr>rs_keepalive := False\<rparr> \<and> w1 = w0 \<and> blocked a1 = Suc (blocked a) \<and> aio a1 \<and>
     blocked a' = blocked a \<and> \<not> aio a' \<and> \<not> ev_timer_set a' \<and>
     carried_out ngx shm env2 t2 r plcf
       (async_outcome ngx shm plcf r (the (submitted ngx r plcf)) (fresh_vr env0) env1 t1 zone env2 t2 w2)
       (w_failure_zone w2) rs1 (w_failure_zone w') rs' \<and>
     (env1 = env0 \<longrightarrow> env2 = env0 \<longrightarrow> t1 = t0 \<longrightarrow> t2 = t0 \<longrightarrow> w2 = w0 \<longrightarrow> zone = nonce_zone_of plcf w0 \<longrightarrow>
        async_outcome ngx shm plcf r (the (submitted ngx r plcf)) (fresh_vr env0) env1 t1 zone env2 t2 w2 =
          login_outcome ngx shm env0 t0 r plcf w0)"
proof -
  from submit_cases [OF assms(1)] assms(2,3) have p: "posted ngx env0 r plcf a a1" "w1 = w0" "rs1 = rs\<lparr>rs_keepalive := False\<rparr>"
    by auto
  then obtain msg where msg: "submitted ngx r plcf = Some msg" "body_readable r plcf" "alloc_ok env0 Alloc_Result" "alloc_ok env0 Alloc_Body"
      and a1: "a1 = a\<lparr>ev_timer_set := True, blocked := blocked a + 1, aio := True, req_ctx := Some tctx\<rparr>"
      and tctx: "tctx = \<lparr>tctx_msg = msg, tctx_ip = fst (binding r plcf), tctx_ua = snd (binding r plcf),
        tctx_gpg_rc = NGX_ERROR, tctx_vr = fresh_vr env0\<rparr>"
    using assms(3) by (auto simp: posted_def)
  obtain rc vr eff where g: "gpg_verify ngx (env_gpg env1) (gpg_path plcf) (keyring plcf) (tctx_msg tctx) (gpg_timeout plcf)
      (tctx_vr tctx) = (rc, vr, eff)" by (metis prod_cases3)
  note t = gpg_thread_result(2) [OF assms(5) g]
  have d: "carried_out ngx shm env2 t2 r plcf
       (async_outcome ngx shm plcf r (the (submitted ngx r plcf)) (fresh_vr env0) env1 t1 zone env2 t2 w2)
       (w_failure_zone w2) rs1 (w_failure_zone w') rs'"
    using async_done [OF assms(5) _ assms(6)] a1 tctx msg assms(4) by simp
  have "async_outcome ngx shm plcf r msg (fresh_vr env0) env0 t0 (nonce_zone_of plcf w0) env0 t0 w0 = login_outcome ngx shm env0 t0 r plcf w0"
    using msg by (simp add: async_outcome_def login_outcome_def)
  then show ?thesis
    using d p a1 msg assms(4) thread_done_carried(2-4) [OF assms(6) _ _ t] by auto
qed

text \<open>
  C6: the gate.  nginx may go on to the protected content exactly if the location is unprotected or the
  request has a valid session.  A subrequest without one is refused, a throttled client gets
  429 and no challenge, a body is read only from a main request that is a login form within the size
  cap, and the handler itself never touches the shared zones.
\<close>

theorem handler_gate:
  assumes "auth_handler ngx env now r plcf w rs = (rc, wants, w', rs')" "discard_rc env \<noteq> NGX_DECLINED"
  shows "(rc = NGX_DECLINED \<longleftrightarrow> \<not> enable plcf \<or> fst (check_session ngx env now r plcf w) = NGX_OK) \<and>
     (rc = NGX_DECLINED \<longrightarrow> rs' = rs \<and> \<not> wants) \<and>
     (rc \<noteq> NGX_DECLINED \<and> \<not> req_is_main r \<longrightarrow> rc = NGX_HTTP NGX_HTTP_FORBIDDEN \<and> rs' = rs \<and> \<not> wants) \<and>
     (rc \<noteq> NGX_DECLINED \<and> req_is_main r \<and> has_failure_zone plcf \<and> zone_banned ngx (w_failure_zone w) now (addr_text r) \<longrightarrow>
        rc = NGX_HTTP NGX_HTTP_TOO_MANY_REQUESTS \<and> rs' = rs \<and> \<not> wants) \<and>
     (wants \<longrightarrow> rc = NGX_DONE \<and> rs' = rs \<and> req_is_main r \<and> req_is_post r \<and> req_arg r \<and>
        req_content_length r \<le> int (max_body_size plcf) \<and> (req_content_length r < 0 \<longrightarrow> \<not> req_chunked r)) \<and>
     w_nonce_zone w' = w_nonce_zone w \<and> w_failure_zone w' = w_failure_zone w"
  using handler_cases [OF assms] by blast

text \<open>The same login on a thread; the sample client without a session.\<close>

definition sample_pool_conf :: loc_conf where
  "sample_pool_conf = sample_conf\<lparr>thread_pool := True\<rparr>"

lemma pool_irrelevant:
  "validate_consume ngx shm redis now (plcf\<lparr>thread_pool := b\<rparr>) bnd vr zone = validate_consume ngx shm redis now plcf bnd vr zone"
  "is_revoked ngx (plcf\<lparr>thread_pool := b\<rparr>) renv fp w = is_revoked ngx plcf renv fp w"
  "can_grant ngx env now r (plcf\<lparr>thread_pool := b\<rparr>) fp = can_grant ngx env now r plcf fp"
  "submitted ngx r (plcf\<lparr>thread_pool := b\<rparr>) = submitted ngx r plcf"
  "body_readable r (plcf\<lparr>thread_pool := b\<rparr>) = body_readable r plcf"
  "binding r (plcf\<lparr>thread_pool := b\<rparr>) = binding r plcf"
  "nonce_zone_of (plcf\<lparr>thread_pool := b\<rparr>) w = nonce_zone_of plcf w"
  by (simp_all add: validate_consume_def is_revoked_def submitted_def body_readable_def nonce_zone_of_def binding_def
      matches_previous_def reload_list_def can_grant_def hmac_hex_raw session_exp_def Let_def
      cong: option.case_cong if_cong prod.case_cong)

lemma sample_pool_outcome:
  "login_outcome ngx_ref shm_ref (sample_login []) 1010 sample_post sample_pool_conf sample_worker = Granted sample_fpr"
proof -
  have v: "verdict ngx env now r (plcf\<lparr>thread_pool := b\<rparr>) w vr c = verdict ngx env now r plcf w vr c"
    for ngx env now r plcf b vr c and w :: "slab_ref worker" by (simp add: verdict_def pool_irrelevant)
  have "login_outcome ngx_ref shm_ref (sample_login []) 1010 sample_post (sample_conf\<lparr>thread_pool := True\<rparr>) sample_worker =
      login_outcome ngx_ref shm_ref (sample_login []) 1010 sample_post sample_conf sample_worker"
    by (simp add: login_outcome_def pool_irrelevant v cong: option.case_cong if_cong prod.case_cong)
  then show ?thesis by (simp add: sample_outcome sample_pool_conf_def)
qed

theorem async_carries_out_decision_witness:
  "\<exists>w1 rs1 a1 tctx tctx' zone'.
     auth_submit ngx_ref shm_ref (sample_login []) 1010 sample_post sample_pool_conf sample_worker sample_resp sample_async = (w1, rs1, a1) \<and>
     req_ctx a1 = Some tctx \<and>
     gpg_thread ngx_ref shm_ref (sample_login []) 1010 sample_pool_conf tctx (Some sample_zone) = (tctx', zone') \<and>
     rs_status (fst (snd (verify_thread_done ngx_ref shm_ref (sample_login []) 1010 sample_post sample_pool_conf sample_worker rs1
       (a1\<lparr>req_ctx := Some tctx'\<rparr>)))) = NGX_HTTP_SEE_OTHER"
proof -
  let ?env = "sample_login []"
  let ?tctx = "\<lparr>tctx_msg = sample_signed, tctx_ip = fst sample_bnd, tctx_ua = snd sample_bnd, tctx_gpg_rc = NGX_ERROR,
     tctx_vr = fresh_vr ?env\<rparr>"
  let ?a = "sample_async\<lparr>ev_timer_set := True, blocked := 1, aio := True, req_ctx := Some ?tctx\<rparr>"
  have readable: "body_readable sample_post sample_pool_conf"
    using sample_submitted submitted_unreadable by (fastforce simp: sample_pool_conf_def pool_irrelevant)
  obtain w where sub: "auth_submit ngx_ref shm_ref ?env 1010 sample_post sample_pool_conf sample_worker sample_resp sample_async =
      start_verification ngx_ref shm_ref ?env 1010 sample_post sample_pool_conf sample_signed sample_worker
        (sample_resp\<lparr>rs_keepalive := False\<rparr>) sample_async"
    by (rule submit_readable [OF readable, of ?env ngx_ref shm_ref 1010 sample_worker sample_resp sample_async])
      (simp_all add: sample_pool_conf_def pool_irrelevant sample_submitted)
  have posted: "auth_submit ngx_ref shm_ref ?env 1010 sample_post sample_pool_conf sample_worker sample_resp sample_async =
      (sample_worker, sample_resp\<lparr>rs_keepalive := False\<rparr>, ?a)"
    unfolding sub by (simp add: start_verification_def sample_pool_conf_def pool_irrelevant sample_binding) (simp add: sample_async_def)
  obtain tctx' zone' where t: "gpg_thread ngx_ref shm_ref ?env 1010 sample_pool_conf ?tctx (Some sample_zone) = (tctx', zone')"
    by (metis surj_pair)
  let ?d = "verify_thread_done ngx_ref shm_ref ?env 1010 sample_post sample_pool_conf sample_worker
      (sample_resp\<lparr>rs_keepalive := False\<rparr>) (?a\<lparr>req_ctx := Some tctx'\<rparr>)"
  have zone: "nonce_zone_of sample_pool_conf sample_worker = Some sample_zone"
    by (simp add: nonce_zone_of_def sample_pool_conf_def sample_worker_def)
  have "carried_out ngx_ref shm_ref ?env 1010 sample_post sample_pool_conf (Granted sample_fpr) (w_failure_zone sample_worker)
      (sample_resp\<lparr>rs_keepalive := False\<rparr>) (w_failure_zone (fst ?d)) (fst (snd ?d))"
    using async_carries_out_decision [OF posted _ _ _ t surjective_pairing3 [of ?d]]
    by (auto simp: zone sample_pool_outcome sample_async_def)
  then have "rs_status (fst (snd ?d)) = NGX_HTTP_SEE_OTHER" by (simp add: carried_out_def)
  then show ?thesis using posted t by force
qed

theorem handler_gate_witness:
  "fst (auth_handler ngx_ref (sample_http []) 1000 (sample_req ''curl'' None) sample_conf sample_worker sample_resp) \<noteq> NGX_DECLINED"
proof -
  let ?h = "auth_handler ngx_ref (sample_http []) 1000 (sample_req ''curl'' None) sample_conf sample_worker sample_resp"
  have "?h = (fst ?h, fst (snd ?h), fst (snd (snd ?h)), snd (snd (snd ?h)))" by simp
  from handler_gate [OF this] show ?thesis
    by (simp add: sample_http_def check_session_def get_cookie_def sample_req_def)
qed

end
