(* ===== verification/Auth_System.thy ===== *)
theory Auth_System
  imports Login
begin

text \<open>
  The module at work: any number of worker processes that share the two zones, any number of
  requests in any stage, verifications on pool threads, and completions, interleaved in any order.
  A step is one call of one of the module's entry points by nginx; what the operating system and
  nginx answer during the call is part of the label of the step.
\<close>

section \<open>States and steps\<close>

datatype phase = Arrived | Reading | Posted | Ran | Finished

text \<open>A request, the worker that serves it, and how far it has come.\<close>

record conn =
  cn_req :: request
  cn_worker :: nat
  cn_phase :: phase
  cn_resp :: response
  cn_async :: async_req

text \<open>
  The shared zones are kept once; a worker runs on a copy of its own state with the zones put in, since
  every operation on a zone is done under the zone's lock.
\<close>

record 'p sys =
  sys_now :: time_t
  sys_nonces :: "'p nonce_zone"
  sys_failures :: "'p throttle_zone"
  sys_workers :: "nat \<Rightarrow> 'p worker"
  sys_conns :: "nat \<Rightarrow> conn option"

definition attach :: "'p sys \<Rightarrow> nat \<Rightarrow> 'p worker" where
  "attach s k = (sys_workers s k)\<lparr>w_nonce_zone := sys_nonces s, w_failure_zone := sys_failures s\<rparr>"

definition detach :: "'p sys \<Rightarrow> nat \<Rightarrow> 'p worker \<Rightarrow> 'p sys" where
  "detach s k w = s\<lparr>sys_nonces := w_nonce_zone w, sys_failures := w_failure_zone w,
     sys_workers := (sys_workers s)(k := w)\<rparr>"

definition put_conn :: "nat \<Rightarrow> conn \<Rightarrow> 'p sys \<Rightarrow> 'p sys" where
  "put_conn i c s = s\<lparr>sys_conns := (sys_conns s)(i \<mapsto> c)\<rparr>"

definition new_resp :: response where
  "new_resp = \<lparr>rs_status = 0, rs_headers = [], rs_content_length = 0, rs_header_sent = False, rs_body = None,
     rs_final = [], rs_keepalive = True\<rparr>"

definition new_async :: async_req where
  "new_async = \<lparr>blocked = 0, aio = False, ev_timer_set = False, ev_timedout = False, req_ctx = None\<rparr>"

definition new_conn :: "nat \<Rightarrow> request \<Rightarrow> conn" where
  "new_conn k r = \<lparr>cn_req = r, cn_worker = k, cn_phase = Arrived, cn_resp = new_resp, cn_async = new_async\<rparr>"

datatype label =
    Accept nat nat request
  | Tick time_t
  | Handle nat http_env
  | Submit nat http_env
  | Thread nat http_env
  | Watchdog nat http_env
  | Complete nat http_env

text \<open>
  One rule per entry point.  The body handler runs once the body has been read, the thread
  function once the task was posted, the completion handler once the thread has finished, or (with the
  event marked as timed out) when the watchdog timer fires before.
  All steps read one clock that never goes back, and all requests are served under one
  location.  nginx caches the time in each worker process, so on a real machine the times that two workers
  read can differ by the length of an event-loop turn, which includes a verification that runs in the worker;
  statements about a moment before an expiry hold up to that difference.
\<close>

inductive sys_step :: "ngx_lib \<Rightarrow> 'p ngx_shm \<Rightarrow> loc_conf \<Rightarrow> 'p sys \<Rightarrow> label \<Rightarrow> 'p sys \<Rightarrow> bool"
  for ngx :: ngx_lib and shm :: "'p ngx_shm" and plcf :: loc_conf where
  accept: "sys_conns s i = None \<Longrightarrow>
     sys_step ngx shm plcf s (Accept i k r) (put_conn i (new_conn k r) s)"
| tick: "sys_now s \<le> t \<Longrightarrow> sys_step ngx shm plcf s (Tick t) (s\<lparr>sys_now := t\<rparr>)"
| handle: "sys_conns s i = Some c \<Longrightarrow> cn_phase c = Arrived \<Longrightarrow>
     auth_handler ngx env (sys_now s) (cn_req c) plcf (attach s (cn_worker c)) (cn_resp c) = (rc, wants, w', rs') \<Longrightarrow>
     sys_step ngx shm plcf s (Handle i env)
       (put_conn i (c\<lparr>cn_phase := (if wants then Reading else Finished), cn_resp := rs'\<rparr>) (detach s (cn_worker c) w'))"
| submit: "sys_conns s i = Some c \<Longrightarrow> cn_phase c = Reading \<Longrightarrow>
     auth_submit ngx shm env (sys_now s) (cn_req c) plcf (attach s (cn_worker c)) (cn_resp c) (cn_async c) = (w', rs', a') \<Longrightarrow>
     sys_step ngx shm plcf s (Submit i env)
       (put_conn i (c\<lparr>cn_phase := (if req_ctx a' = None then Finished else Posted), cn_resp := rs', cn_async := a'\<rparr>)
          (detach s (cn_worker c) w'))"
| thread: "sys_conns s i = Some c \<Longrightarrow> cn_phase c = Posted \<Longrightarrow> req_ctx (cn_async c) = Some tctx \<Longrightarrow>
     gpg_thread ngx shm env (sys_now s) plcf tctx (nonce_zone_of plcf (attach s (cn_worker c))) = (tctx', zone') \<Longrightarrow>
     sys_step ngx shm plcf s (Thread i env)
       (put_conn i (c\<lparr>cn_phase := Ran, cn_async := (cn_async c)\<lparr>req_ctx := Some tctx'\<rparr>\<rparr>)
          (detach s (cn_worker c) (put_nonce_zone zone' (attach s (cn_worker c)))))"
| watchdog: "sys_conns s i = Some c \<Longrightarrow> cn_phase c = Posted \<or> cn_phase c = Ran \<Longrightarrow> ev_timer_set (cn_async c) \<Longrightarrow>
     verify_thread_done ngx shm env (sys_now s) (cn_req c) plcf (attach s (cn_worker c)) (cn_resp c)
       ((cn_async c)\<lparr>ev_timer_set := False, ev_timedout := True\<rparr>) = (w', rs', a') \<Longrightarrow>
     sys_step ngx shm plcf s (Watchdog i env)
       (put_conn i (c\<lparr>cn_resp := rs', cn_async := a'\<rparr>) (detach s (cn_worker c) w'))"
| complete: "sys_conns s i = Some c \<Longrightarrow> cn_phase c = Ran \<Longrightarrow>
     verify_thread_done ngx shm env (sys_now s) (cn_req c) plcf (attach s (cn_worker c)) (cn_resp c) (cn_async c) = (w', rs', a') \<Longrightarrow>
     sys_step ngx shm plcf s (Complete i env)
       (put_conn i (c\<lparr>cn_phase := Finished, cn_resp := rs', cn_async := a'\<rparr>) (detach s (cn_worker c) w'))"

inductive_cases sys_stepE: "sys_step ngx shm plcf s l s'"

text \<open>Runs, with the state before each step on record.\<close>

inductive sys_run :: "ngx_lib \<Rightarrow> 'p ngx_shm \<Rightarrow> loc_conf \<Rightarrow> 'p sys \<Rightarrow> ('p sys \<times> label) list \<Rightarrow> 'p sys \<Rightarrow> bool"
  for ngx :: ngx_lib and shm :: "'p ngx_shm" and plcf :: loc_conf where
  start: "sys_run ngx shm plcf s [] s"
| step: "sys_run ngx shm plcf s0 tr s \<Longrightarrow> sys_step ngx shm plcf s l s' \<Longrightarrow> sys_run ngx shm plcf s0 (tr @ [(s, l)]) s'"

lemma attach_simps [simp]: "w_nonce_zone (attach s k) = sys_nonces s" "w_failure_zone (attach s k) = sys_failures s"
  by (simp_all add: attach_def)

lemma detach_simps [simp]:
  "sys_nonces (detach s k w) = w_nonce_zone w" "sys_failures (detach s k w) = w_failure_zone w"
  "sys_now (detach s k w) = sys_now s" "sys_conns (detach s k w) = sys_conns s"
  by (simp_all add: detach_def)

lemma put_conn_simps [simp]:
  "sys_nonces (put_conn i c s) = sys_nonces s" "sys_failures (put_conn i c s) = sys_failures s"
  "sys_now (put_conn i c s) = sys_now s" "sys_conns (put_conn i c s) = (sys_conns s)(i \<mapsto> c)"
  by (simp_all add: put_conn_def)

section \<open>The life of a request\<close>

text \<open>
  A request is pinned exactly while a verification on a thread is under way, has been finalized at most
  once and not before it is finished, and carries the task's context while it is pinned.
\<close>

definition conn_ok :: "ngx_lib \<Rightarrow> loc_conf \<Rightarrow> conn \<Rightarrow> bool" where
  "conn_ok ngx plcf c \<longleftrightarrow>
     (let a = cn_async c; flying = (cn_phase c = Posted \<or> cn_phase c = Ran) in
      blocked a = (if flying then 1 else 0) \<and> aio a = flying \<and> \<not> ev_timedout a \<and> (ev_timer_set a \<longrightarrow> flying) \<and>
      (cn_phase c \<noteq> Finished \<longrightarrow> rs_final (cn_resp c) = []) \<and> length (rs_final (cn_resp c)) \<le> 1 \<and>
      (cn_phase c = Arrived \<or> cn_phase c = Reading \<longrightarrow> req_ctx a = None) \<and>
      (flying \<longrightarrow> (\<exists>tctx. req_ctx a = Some tctx \<and> submitted ngx (cn_req c) plcf = Some (tctx_msg tctx) \<and>
         (tctx_ip tctx, tctx_ua tctx) = binding (cn_req c) plcf \<and> (cn_phase c = Ran \<longrightarrow> thread_done_ok tctx))))"

lemma conn_ok_new: "conn_ok ngx plcf (new_conn k r)"
  by (simp add: conn_ok_def Let_def new_conn_def new_async_def new_resp_def)

lemma conn_ok_handle:
  assumes "conn_ok ngx plcf c" "cn_phase c = Arrived"
    and "auth_handler ngx env now (cn_req c) plcf w (cn_resp c) = (rc, wants, w', rs')"
  shows "conn_ok ngx plcf (c\<lparr>cn_phase := (if wants then Reading else Finished), cn_resp := rs'\<rparr>)"
proof -
  have "length (rs_final rs') \<le> 1 \<and> (wants \<longrightarrow> rs_final rs' = [])"
    using handler_resp(1,2) [OF assms(3)] assms(1,2) send_challenge_frame [of ngx env now "cn_req c" plcf False "cn_resp c"]
    by (auto simp: conn_ok_def Let_def finalize_request_def)
  then show ?thesis using assms(1,2) by (auto simp: conn_ok_def Let_def)
qed

lemma conn_ok_submit:
  assumes ok: "conn_ok ngx plcf c" and ph: "cn_phase c = Reading"
    and sub: "auth_submit ngx shm env now (cn_req c) plcf w (cn_resp c) (cn_async c) = (w', rs', a')"
  shows "conn_ok ngx plcf (c\<lparr>cn_phase := (if req_ctx a' = None then Finished else Posted), cn_resp := rs', cn_async := a'\<rparr>)"
  using submit_cases [OF sub]
proof
  assume answered: "a' = cn_async c \<and> \<not> rs_keepalive rs' \<and> carried_out ngx shm env now (cn_req c) plcf
     (login_outcome ngx shm env now (cn_req c) plcf w) (w_failure_zone w) (cn_resp c\<lparr>rs_keepalive := False\<rparr>) (w_failure_zone w') rs'"
  then have "length (rs_final rs') = 1" using ok ph by (force simp: conn_ok_def Let_def dest: carried_out_final)
  then show ?thesis using answered ok ph by (auto simp: conn_ok_def Let_def)
next
  assume "posted ngx env (cn_req c) plcf (cn_async c) a' \<and> w' = w \<and> rs' = cn_resp c\<lparr>rs_keepalive := False\<rparr>"
  then show ?thesis using ok ph by (auto simp: conn_ok_def Let_def posted_def)
qed

lemma conn_ok_thread:
  assumes "conn_ok ngx plcf c" "cn_phase c = Posted" "req_ctx (cn_async c) = Some tctx"
    and "gpg_thread ngx shm env now plcf tctx zone = (tctx', zone')"
  shows "conn_ok ngx plcf (c\<lparr>cn_phase := Ran, cn_async := (cn_async c)\<lparr>req_ctx := Some tctx'\<rparr>\<rparr>)"
proof -
  obtain rc vr eff where g: "gpg_verify ngx (env_gpg env) (gpg_path plcf) (keyring plcf) (tctx_msg tctx) (gpg_timeout plcf)
      (tctx_vr tctx) = (rc, vr, eff)" by (metis prod_cases3)
  show ?thesis using assms(1-3) gpg_thread_result(2,5,8,9) [OF assms(4) g] by (auto simp: conn_ok_def Let_def)
qed

lemma conn_ok_watchdog:
  assumes "conn_ok ngx plcf c" "cn_phase c = Posted \<or> cn_phase c = Ran"
    and "verify_thread_done ngx shm env now (cn_req c) plcf w (cn_resp c)
       ((cn_async c)\<lparr>ev_timer_set := False, ev_timedout := True\<rparr>) = (w', rs', a')"
  shows "conn_ok ngx plcf (c\<lparr>cn_resp := rs', cn_async := a'\<rparr>)"
  using assms by (auto simp: verify_thread_done_def conn_ok_def Let_def)

lemma conn_ok_complete:
  assumes "conn_ok ngx plcf c" "cn_phase c = Ran"
    and "verify_thread_done ngx shm env now (cn_req c) plcf w (cn_resp c) (cn_async c) = (w', rs', a')"
  shows "conn_ok ngx plcf (c\<lparr>cn_phase := Finished, cn_resp := rs', cn_async := a'\<rparr>)"
proof -
  obtain tctx where t: "req_ctx (cn_async c) = Some tctx" "thread_done_ok tctx" "\<not> ev_timedout (cn_async c)"
    using assms(1,2) by (auto simp: conn_ok_def Let_def)
  note fin = thread_done_carried [OF assms(3) t(3,1,2)]
  have "\<not> ev_timedout a'" using assms(3) t(3) by (auto simp: verify_thread_done_def Let_def split: prod.splits if_splits)
  moreover have "length (rs_final rs') = 1"
    using carried_out_final [OF fin(1)] assms(1,2) by (auto simp: conn_ok_def Let_def)
  ultimately show ?thesis using fin(2-4) assms(1,2) by (auto simp: conn_ok_def Let_def)
qed

text \<open>A step adds a request, changes one request from a state to another, or none.\<close>

definition keeps_conns :: "ngx_lib \<Rightarrow> loc_conf \<Rightarrow> 'p sys \<Rightarrow> 'p sys \<Rightarrow> bool" where
  "keeps_conns ngx plcf s s' \<longleftrightarrow>
     sys_conns s' = sys_conns s \<or>
     (\<exists>i c'. sys_conns s' = (sys_conns s)(i \<mapsto> c') \<and>
        ((\<forall>c. sys_conns s i = Some c \<longrightarrow> conn_ok ngx plcf c) \<longrightarrow> conn_ok ngx plcf c'))"

lemma keeps_connsI:
  assumes "sys_conns s i = Some c" "conn_ok ngx plcf c \<Longrightarrow> conn_ok ngx plcf c'"
  shows "keeps_conns ngx plcf s (put_conn i c' (detach s k w))"
  using assms by (fastforce simp: keeps_conns_def)

lemma step_keeps_conns:
  assumes "sys_step ngx shm plcf s l s'"
  shows "keeps_conns ngx plcf s s'"
  using assms
proof (cases rule: sys_step.cases)
  case (accept i k r)
  then have "sys_conns s' = (sys_conns s)(i \<mapsto> new_conn k r)" by simp
  then show ?thesis using conn_ok_new unfolding keeps_conns_def by blast
next
  case (tick t)
  then show ?thesis by (simp add: keeps_conns_def)
next
  case (handle i c env rc wants w' rs')
  then show ?thesis using keeps_connsI [OF handle(3) conn_ok_handle [OF _ handle(4,5)]] by simp
next
  case (submit i c env w' rs' a')
  then show ?thesis using keeps_connsI [OF submit(3) conn_ok_submit [OF _ submit(4,5)]] by simp
next
  case (thread i c tctx env tctx' zone')
  then show ?thesis using keeps_connsI [OF thread(3) conn_ok_thread [OF _ thread(4-6)]] by simp
next
  case (watchdog i c env w' rs' a')
  then show ?thesis using keeps_connsI [OF watchdog(3) conn_ok_watchdog [OF _ watchdog(4,6)]] by simp
next
  case (complete i c env w' rs' a')
  then show ?thesis using keeps_connsI [OF complete(3) conn_ok_complete [OF _ complete(4,5)]] by simp
qed

lemma step_conn_ok:
  assumes "sys_step ngx shm plcf s l s'" "\<And>i c. sys_conns s i = Some c \<Longrightarrow> conn_ok ngx plcf c"
  shows "sys_conns s' i = Some c \<Longrightarrow> conn_ok ngx plcf c"
  using step_keeps_conns [OF assms(1)] assms(2) by (auto simp: keeps_conns_def split: if_splits)

lemma run_conn_ok:
  assumes "sys_run ngx shm plcf s0 tr s" "\<And>i c. sys_conns s0 i = Some c \<Longrightarrow> conn_ok ngx plcf c"
  shows "sys_conns s i = Some c \<Longrightarrow> conn_ok ngx plcf c"
  using assms
proof (induction arbitrary: i c rule: sys_run.induct)
  case (step s0 tr s l s')
  then show ?case using step_conn_ok [OF step.hyps(2)] by blast
qed simp

section \<open>What a verification leaves behind\<close>

text \<open>
  The challenge that a verified text carries: its nonce and expiry.
\<close>

definition challenge_of :: "ngx_lib \<Rightarrow> verify_result \<Rightarrow> (bytes \<times> time_t) option" where
  "challenge_of ngx vr =
     (case find_v1 (plaintext vr) of
        None \<Rightarrow> None
      | Some p \<Rightarrow> (case split_challenge ngx (challenge_line ngx p) of
          None \<Rightarrow> None
        | Some (payload, e, nonce, mac) \<Rightarrow> Some (nonce, ngx_atotm ngx e)))"

text \<open>
  The values of the \<open>Set-Cookie\<close> headers of a response, and those that a login of a key can put there: the
  session for its fingerprint, or no value at all when memory ran out in the middle.
\<close>

definition cookies :: "response \<Rightarrow> bytes set" where
  "cookies rs = {v. (''Set-Cookie'', v) \<in> set (rs_headers rs)}"

definition issued :: "ngx_lib \<Rightarrow> http_env \<Rightarrow> time_t \<Rightarrow> request \<Rightarrow> loc_conf \<Rightarrow> bytes \<Rightarrow> bytes \<Rightarrow> bool" where
  "issued ngx env now r plcf fp v \<longleftrightarrow>
     v = [] \<or> (\<exists>mac. hmac_hex ngx env r plcf ''sess'' (session_payload ngx (session_exp plcf now) fp) = Some mac \<and>
       v = cookie_value plcf (session_payload ngx (session_exp plcf now) fp) mac)"

lemma cookies_simps [simp]:
  "cookies new_resp = {}" "cookies (finalize_request rc rs) = cookies rs" "cookies (rs\<lparr>rs_keepalive := b\<rparr>) = cookies rs"
  "cookies (rs\<lparr>rs_header_sent := b\<rparr>) = cookies rs"
  by (simp_all add: cookies_def new_resp_def finalize_request_def)

lemma push_sec_cookies:
  "push_sec_headers env i hs rs = (ok, rs') \<Longrightarrow> ''Set-Cookie'' \<notin> fst ` set hs \<Longrightarrow> cookies rs' = cookies rs"
  by (induction env i hs rs rule: push_sec_headers.induct) (auto simp: push_header_def cookies_def split: if_splits)

lemma send_challenge_cookies:
  assumes "send_challenge ngx env now r plcf failed rs = (rc, rs')"
  shows "cookies rs' = cookies rs"
proof -
  have sec: "''Set-Cookie'' \<notin> fst ` set sec_headers" by (simp add: sec_headers_def)
  have upd: "cookies (x\<lparr>rs_body := b\<rparr>) = cookies x"
    "cookies (push_header ''Content-Type'' v (x\<lparr>rs_status := st, rs_content_length := n\<rparr>)) = cookies x" for x b v st n
    by (auto simp: cookies_def push_header_def)
  show ?thesis
    using assms sec by (auto simp: send_challenge_def Let_def upd split: option.splits if_splits prod.splits bool.splits
        dest!: push_sec_cookies)
qed

lemma verify_finalize_cookies: "verify_finalize ngx shm env now r plcf rc w rs = (w', rs') \<Longrightarrow> cookies rs' = cookies rs"
  by (auto simp: verify_finalize_def Let_def split: if_splits prod.splits dest: send_challenge_cookies)

lemma grant_cookies: "grant ngx env now r plcf fp rs = (rc, rs') \<Longrightarrow> v \<in> cookies rs' \<Longrightarrow> v \<in> cookies rs \<or> issued ngx env now r plcf fp v"
  by (auto simp: grant_def cookies_def issued_def push_header_def Let_def split: if_splits option.splits)

lemma verify_finalize_nonces: "verify_finalize ngx shm env now r plcf rc w rs = (w', rs') \<Longrightarrow> w_nonce_zone w' = w_nonce_zone w"
  by (auto simp: verify_finalize_def Let_def split: if_splits prod.splits)

text \<open>After gpg, a cookie is set and a nonce is used up only for a good signature by a key that is not revoked.\<close>

lemma verify_post_effect:
  assumes "verify_post ngx shm env now r plcf vr w rs = (rc, vr', w', rs')"
  defines "good \<equiv> valid vr \<and> \<not> fst (is_revoked ngx plcf (env_revoc env) (fpr vr) w)"
  shows "v \<in> cookies rs' \<Longrightarrow> v \<in> cookies rs \<or> good \<and> chal_verdict ngx shm env now r plcf vr w = NGX_OK \<and> issued ngx env now r plcf (fpr vr) v"
    and "w_nonce_zone w' =
      (if good \<and> \<not> chal_done vr
       then w_nonce_zone (put_nonce_zone (snd (snd (validate_consume ngx shm (env_redis env) now plcf (binding r plcf) vr
         (nonce_zone_of plcf w)))) w)
       else w_nonce_zone w)"
proof -
  obtain b w1 where b: "is_revoked ngx plcf (env_revoc env) (fpr vr) w = (b, w1)" by (metis surj_pair)
  note same = is_revoked_frameD [OF b, THEN conjunct1]
  have z: "nonce_zone_of plcf w1 = nonce_zone_of plcf w" by (rule nonce_zone_of_cong [OF same])
  have p: "w_nonce_zone (put_nonce_zone q w1) = w_nonce_zone (put_nonce_zone q w)" for q
    using same by (simp add: put_nonce_zone_def split: option.split)
  have own: "w_nonce_zone (put_nonce_zone (nonce_zone_of plcf w) w) = w_nonce_zone w"
    by (simp add: put_nonce_zone_def nonce_zone_of_def)
  obtain c vr1 z1 where v: "validate_consume ngx shm (env_redis env) now plcf (binding r plcf) vr (nonce_zone_of plcf w) = (c, vr1, z1)"
    by (metis prod_cases3)
  have fp: "fpr vr1 = fpr vr" using validate_verdict [OF v] by (simp add: same_verdict_def)
  have "rs' = rs \<or> good \<and> chal_verdict ngx shm env now r plcf vr w = NGX_OK \<and> (\<exists>rc. grant ngx env now r plcf (fpr vr) rs = (rc, rs'))"
    using assms(1) b fp by (auto simp: verify_post_def good_def chal_verdict_def z v Let_def split: if_splits prod.splits bool.splits)
  then show "v \<in> cookies rs \<or> good \<and> chal_verdict ngx shm env now r plcf vr w = NGX_OK \<and> issued ngx env now r plcf (fpr vr) v"
    if "v \<in> cookies rs'" for v using that grant_cookies by blast
  show "w_nonce_zone w' =
      (if good \<and> \<not> chal_done vr
       then w_nonce_zone (put_nonce_zone (snd (snd (validate_consume ngx shm (env_redis env) now plcf (binding r plcf) vr
         (nonce_zone_of plcf w)))) w)
       else w_nonce_zone w)"
    using assms(1) b same own by (auto simp: verify_post_def good_def z p Let_def split: if_splits prod.splits bool.splits)
qed

text \<open>
  The verification result with which a submission comes to the challenge check in the worker, and the one
  with which a thread comes to it.
\<close>

definition gpg_good :: "ngx_lib \<Rightarrow> http_env \<Rightarrow> loc_conf \<Rightarrow> bytes \<Rightarrow> verify_result \<Rightarrow> verify_result option" where
  "gpg_good ngx env plcf msg vr0 =
     (case gpg_verify ngx (env_gpg env) (gpg_path plcf) (keyring plcf) msg (gpg_timeout plcf) vr0 of
        (rc, vr, eff) \<Rightarrow> if rc = NGX_OK \<and> valid vr then Some vr else None)"

definition inline_check :: "ngx_lib \<Rightarrow> http_env \<Rightarrow> request \<Rightarrow> loc_conf \<Rightarrow> 'p worker \<Rightarrow> verify_result option" where
  "inline_check ngx env r plcf w =
     (if \<not> alloc_ok env Alloc_Body \<or> \<not> alloc_ok env Alloc_Result \<or> thread_pool plcf \<and> alloc_ok env Alloc_Task \<and> task_post_ok env
      then None
      else case submitted ngx r plcf of
        None \<Rightarrow> None
      | Some msg \<Rightarrow> (case gpg_good ngx env plcf msg (fresh_vr env) of
          None \<Rightarrow> None
        | Some vr \<Rightarrow> if fst (is_revoked ngx plcf (env_revoc env) (fpr vr) w) then None else Some vr))"

text \<open>The zone after the challenge check of a verification result, if there is one.\<close>

definition zone_after :: "ngx_lib \<Rightarrow> 'p ngx_shm \<Rightarrow> http_env \<Rightarrow> time_t \<Rightarrow> loc_conf \<Rightarrow> bytes \<times> bytes \<Rightarrow> verify_result option
    \<Rightarrow> 'p worker \<Rightarrow> 'p nonce_zone" where
  "zone_after ngx shm env now plcf bnd ch w =
     (case ch of
        None \<Rightarrow> w_nonce_zone w
      | Some vr \<Rightarrow> w_nonce_zone (put_nonce_zone (snd (snd (validate_consume ngx shm (env_redis env) now plcf bnd vr
          (nonce_zone_of plcf w)))) w))"

definition chal_accepted :: "ngx_lib \<Rightarrow> 'p ngx_shm \<Rightarrow> http_env \<Rightarrow> time_t \<Rightarrow> loc_conf \<Rightarrow> bytes \<times> bytes \<Rightarrow> verify_result option
    \<Rightarrow> 'p worker \<Rightarrow> bool" where
  "chal_accepted ngx shm env now plcf bnd ch w \<longleftrightarrow>
     (case ch of
        None \<Rightarrow> False
      | Some vr \<Rightarrow> fst (validate_consume ngx shm (env_redis env) now plcf bnd vr (nonce_zone_of plcf w)) = NGX_OK)"

lemma verify_inline_effect:
  assumes "verify_inline ngx shm env now r plcf msg vr0 w rs = (w', rs')" "\<not> chal_done vr0"
  defines "ch \<equiv> (case gpg_good ngx env plcf msg vr0 of
     None \<Rightarrow> None | Some vr \<Rightarrow> if fst (is_revoked ngx plcf (env_revoc env) (fpr vr) w) then None else Some vr)"
  shows "v \<in> cookies rs' \<Longrightarrow> v \<in> cookies rs \<or> (\<exists>vr. ch = Some vr \<and> chal_accepted ngx shm env now plcf (binding r plcf) ch w \<and> issued ngx env now r plcf (fpr vr) v)"
    and "w_nonce_zone w' = zone_after ngx shm env now plcf (binding r plcf) ch w"
proof -
  obtain grc vr eff where g: "gpg_verify ngx (env_gpg env) (gpg_path plcf) (keyring plcf) msg (gpg_timeout plcf) vr0 = (grc, vr, eff)"
    by (metis prod_cases3)
  obtain rc vr1 w1 rs1 where p: "(if grc \<noteq> NGX_OK then (NGX_ERROR, vr, w, rs) else verify_post ngx shm env now r plcf vr w rs) =
      (rc, vr1, w1, rs1)" by (metis prod_cases4)
  have f: "verify_finalize ngx shm env now r plcf rc (w1\<lparr>w_log := fst (gpg_log_diag (w_log w1) vr1)\<rparr>) rs1 = (w', rs')"
    using assms(1) g p by (auto simp: verify_inline_def Let_def split: prod.splits)
  have undone: "\<not> chal_done vr" using gpg_verify_chal_done [OF g] assms(2) by simp
  show "v \<in> cookies rs \<or> (\<exists>vr. ch = Some vr \<and> chal_accepted ngx shm env now plcf (binding r plcf) ch w \<and> issued ngx env now r plcf (fpr vr) v)"
    if "v \<in> cookies rs'"
  proof (cases "grc = NGX_OK")
    case True
    from verify_post_effect(1) [of ngx shm env now r plcf vr w rs rc vr1 w1 rs1 v] p True that verify_finalize_cookies [OF f]
    show ?thesis by (auto simp: ch_def gpg_good_def g chal_accepted_def chal_verdict_fresh [OF undone])
  qed (use p verify_finalize_cookies [OF f] that in auto)
  show "w_nonce_zone w' = zone_after ngx shm env now plcf (binding r plcf) ch w"
  proof (cases "grc = NGX_OK")
    case True
    from verify_post_effect(2) [of ngx shm env now r plcf vr w rs rc vr1 w1 rs1] p True verify_finalize_nonces [OF f] undone
    show ?thesis by (auto simp: ch_def gpg_good_def g zone_after_def)
  next
    case False
    then show ?thesis using p verify_finalize_nonces [OF f] by (auto simp: ch_def gpg_good_def g zone_after_def)
  qed
qed

lemma read_body_nonces: "read_body ngx env r cap w = (rc, body, w') \<Longrightarrow> w_nonce_zone w' = w_nonce_zone w"
  by (auto simp: read_body_def Let_def split: option.splits list.splits if_splits)

lemma verify_pre_nonces: "verify_pre msg w = (rc, w') \<Longrightarrow> w_nonce_zone w' = w_nonce_zone w"
  by (auto simp: verify_pre_def Let_def split: if_splits)

text \<open>A submission is answered at once or goes on to a verification.\<close>

lemma submit_paths:
  assumes sub: "auth_submit ngx shm env now r plcf w rs a = (w', rs', a')"
  obtains (answered) rc w1 where "submitted ngx r plcf = None \<or> \<not> alloc_ok env Alloc_Body" "w_nonce_zone w1 = w_nonce_zone w"
      "verify_finalize ngx shm env now r plcf rc w1 (rs\<lparr>rs_keepalive := False\<rparr>) = (w', rs')"
    | (started) msg where "submitted ngx r plcf = Some msg" "alloc_ok env Alloc_Body"
      "start_verification ngx shm env now r plcf msg w (rs\<lparr>rs_keepalive := False\<rparr>) a = (w', rs', a')"
proof (cases "body_readable r plcf \<and> alloc_ok env Alloc_Body")
  case False
  obtain rc body w1 where b: "read_body ngx env r (max_body_size plcf) w = (rc, body, w1)" by (metis prod_cases3)
  have "rc \<noteq> NGX_OK" using read_body_cases(1) [OF b] False by auto
  then obtain rc' ev why where "verify_finalize ngx shm env now r plcf rc' (log_event r ev why None w1) (rs\<lparr>rs_keepalive := False\<rparr>) = (w', rs')"
    using sub b by (auto simp: auth_submit_def Let_def split: if_splits prod.splits)
  then show ?thesis
    using answered [of "log_event r ev why None w1" rc'] False submitted_unreadable read_body_nonces [OF b] by auto
next
  case True
  obtain rc body w0 where b: "read_body ngx env r (max_body_size plcf) w = (rc, body, w0)" by (metis prod_cases3)
  have rc: "rc = NGX_OK" using read_body_cases(1) [OF b] True by simp
  obtain bufs where w0: "w0 = w" and bufs: "req_body r = Some bufs" "body = concat (map buf_bytes bufs)"
    using read_body_cases(3) [OF b rc] by auto
  define msg where "msg = (case form_field ngx body of None \<Rightarrow> body | Some m \<Rightarrow> m)"
  obtain prc w1 where pre: "verify_pre msg w = (prc, w1)" by (metis surj_pair)
  note s = submitted_readable [OF conjunct1 [OF True] bufs msg_def] verify_pre_cases [OF pre]
  show ?thesis
  proof (cases "prc = NGX_OK")
    case ok: True
    then have "start_verification ngx shm env now r plcf msg w (rs\<lparr>rs_keepalive := False\<rparr>) a = (w', rs', a')"
      using sub b rc w0 pre s by (auto simp: auth_submit_def Let_def msg_def [symmetric] split: if_splits)
    then show ?thesis using started [of msg] s ok True by (auto split: if_splits)
  next
    case False
    then have "verify_finalize ngx shm env now r plcf NGX_DECLINED (log_event r ''denied'' ''not_clear_signed'' None w1)
        (rs\<lparr>rs_keepalive := False\<rparr>) = (w', rs')"
      using sub b rc w0 pre by (auto simp: auth_submit_def Let_def msg_def [symmetric] split: prod.splits)
    then show ?thesis
      using answered [of "log_event r ''denied'' ''not_clear_signed'' None w1"] s False verify_pre_nonces [OF pre] by (auto split: if_splits)
  qed
qed

lemma start_effect:
  assumes st: "start_verification ngx shm env now r plcf msg w rs a = (w', rs', a')"
    and "submitted ngx r plcf = Some msg" "alloc_ok env Alloc_Body"
  defines "ch \<equiv> inline_check ngx env r plcf w"
  shows "(v \<in> cookies rs' \<longrightarrow> v \<in> cookies rs \<or> (\<exists>vr. ch = Some vr \<and> chal_accepted ngx shm env now plcf (binding r plcf) ch w \<and> issued ngx env now r plcf (fpr vr) v)) \<and>
    w_nonce_zone w' = zone_after ngx shm env now plcf (binding r plcf) ch w"
proof (cases "alloc_ok env Alloc_Result \<and> \<not> (thread_pool plcf \<and> alloc_ok env Alloc_Task \<and> task_post_ok env)")
  case True
  define w3 where "w3 = (if thread_pool plcf then log_error NGX_LOG_WARN
        (''pgp_auth: could not post gpg to the thread pool; '' @ ''verifying synchronously'') w else w)"
  have inl: "verify_inline ngx shm env now r plcf msg (fresh_vr env) w3 rs = (w', rs')"
    using st True by (auto simp: start_verification_def Let_def w3_def split: prod.splits)
  have w3: "nonce_zone_of plcf w3 = nonce_zone_of plcf w" "w_nonce_zone w3 = w_nonce_zone w"
    "fst (is_revoked ngx plcf renv fp w3) = fst (is_revoked ngx plcf renv fp w)"
    "w_nonce_zone (put_nonce_zone z w3) = w_nonce_zone (put_nonce_zone z w)" for renv fp z
    by (simp_all add: w3_def nonce_zone_of_def put_nonce_zone_def split: option.split)
  have ch: "ch = (case gpg_good ngx env plcf msg (fresh_vr env) of
     None \<Rightarrow> None | Some vr \<Rightarrow> if fst (is_revoked ngx plcf (env_revoc env) (fpr vr) w3) then None else Some vr)"
    using assms(2,3) True by (auto simp: ch_def inline_check_def w3 split: option.split)
  from verify_inline_effect [OF inl, folded ch] show ?thesis
    by (cases ch) (simp_all add: fresh_vr_def zone_after_def chal_accepted_def w3)
next
  case False
  then have "ch = None" by (auto simp: ch_def inline_check_def)
  then show ?thesis
    using st False by (auto simp: start_verification_def zone_after_def split: if_splits)
qed

lemma submit_effect:
  assumes sub: "auth_submit ngx shm env now r plcf w rs a = (w', rs', a')"
  defines "ch \<equiv> inline_check ngx env r plcf w"
  shows "(v \<in> cookies rs' \<longrightarrow> v \<in> cookies rs \<or> (\<exists>vr. ch = Some vr \<and> chal_accepted ngx shm env now plcf (binding r plcf) ch w \<and> issued ngx env now r plcf (fpr vr) v)) \<and>
    w_nonce_zone w' = zone_after ngx shm env now plcf (binding r plcf) ch w"
  using sub
proof (cases rule: submit_paths)
  case (answered rc w1)
  then have "ch = None" by (auto simp: ch_def inline_check_def)
  then show ?thesis
    using answered verify_finalize_cookies [OF answered(3)] verify_finalize_nonces [OF answered(3)] by (simp add: zone_after_def)
next
  case (started msg)
  then show ?thesis using start_effect [OF started(3,1,2)] by (simp add: ch_def)
qed

text \<open>The completion handler uses up no nonce; it sets a cookie only if the thread's verification accepted the challenge.\<close>

lemma thread_done_effect:
  assumes "verify_thread_done ngx shm env now r plcf w rs a = (w', rs', a')" "\<not> ev_timedout a"
    and "req_ctx a = Some tctx" "thread_done_ok tctx"
  shows "v \<in> cookies rs' \<Longrightarrow> v \<in> cookies rs \<or>
     issued ngx env now r plcf (fpr (tctx_vr tctx)) v \<and> tctx_gpg_rc tctx = NGX_OK \<and> valid (tctx_vr tctx) \<and> chal_rc (tctx_vr tctx) = NGX_OK \<and>
     \<not> fst (is_revoked ngx plcf (env_revoc env) (fpr (tctx_vr tctx)) w)"
    and "w_nonce_zone w' = w_nonce_zone w"
proof -
  define vr where "vr = snd (gpg_log_diag (w_log w) (tctx_vr tctx))"
  define w1 where "w1 = w\<lparr>w_log := fst (gpg_log_diag (w_log w) (tctx_vr tctx))\<rparr>"
  obtain rc vr2 w2 rs2 where p: "(if tctx_gpg_rc tctx \<noteq> NGX_OK then (NGX_ERROR, vr, w1, rs)
      else verify_post ngx shm env now r plcf vr w1 rs) = (rc, vr2, w2, rs2)" by (metis prod_cases4)
  have f: "verify_finalize ngx shm env now r plcf rc w2 rs2 = (w', rs')"
    using assms(1-3) p by (auto simp: verify_thread_done_def Let_def vr_def w1_def split: prod.splits if_splits)
  note post = verify_post_effect [of ngx shm env now r plcf vr w1 rs rc vr2 w2 rs2]
  have w1: "w_nonce_zone w1 = w_nonce_zone w" by (simp add: w1_def)
  have vr: "valid vr = valid (tctx_vr tctx)" "fpr vr = fpr (tctx_vr tctx)" "chal_done vr = chal_done (tctx_vr tctx)"
    "chal_rc vr = chal_rc (tctx_vr tctx)" by (simp_all add: vr_def)
  show "w_nonce_zone w' = w_nonce_zone w"
    using p post(2) verify_finalize_nonces [OF f] w1 vr assms(4) by (auto simp: thread_done_ok_def split: if_splits)
  show "v \<in> cookies rs \<or> issued ngx env now r plcf (fpr (tctx_vr tctx)) v \<and> tctx_gpg_rc tctx = NGX_OK \<and> valid (tctx_vr tctx) \<and> chal_rc (tctx_vr tctx) = NGX_OK \<and>
     \<not> fst (is_revoked ngx plcf (env_revoc env) (fpr (tctx_vr tctx)) w)" if "v \<in> cookies rs'"
    using p post(1) verify_finalize_cookies [OF f] that vr assms(4)
    by (auto simp: thread_done_ok_def chal_verdict_def w1_def split: if_splits)
qed

section \<open>Single use in the whole system\<close>

text \<open>
  What reaches the challenge check in a step: the environment, the client binding, the verification
  result and the worker.
\<close>

fun checked :: "ngx_lib \<Rightarrow> loc_conf \<Rightarrow> 'p sys \<times> label \<Rightarrow> (http_env \<times> (bytes \<times> bytes) \<times> verify_result \<times> 'p worker) option" where
  "checked ngx plcf (s, Submit i env) =
     (case sys_conns s i of
        None \<Rightarrow> None
      | Some c \<Rightarrow> map_option (\<lambda>vr. (env, binding (cn_req c) plcf, vr, attach s (cn_worker c)))
          (inline_check ngx env (cn_req c) plcf (attach s (cn_worker c))))"
| "checked ngx plcf (s, Thread i env) =
     (case sys_conns s i of
        None \<Rightarrow> None
      | Some c \<Rightarrow> (case req_ctx (cn_async c) of
          None \<Rightarrow> None
        | Some tctx \<Rightarrow> map_option (\<lambda>vr. (env, (tctx_ip tctx, tctx_ua tctx), vr, attach s (cn_worker c)))
            (gpg_good ngx env plcf (tctx_msg tctx) (tctx_vr tctx))))"
| "checked ngx plcf _ = None"

text \<open>A step accepts a challenge (nonce and expiry).\<close>

definition accepts :: "ngx_lib \<Rightarrow> 'p ngx_shm \<Rightarrow> loc_conf \<Rightarrow> 'p sys \<times> label \<Rightarrow> bytes \<Rightarrow> time_t \<Rightarrow> bool" where
  "accepts ngx shm plcf x n e \<longleftrightarrow>
     (case checked ngx plcf x of
        None \<Rightarrow> False
      | Some (env, bnd, vr, w) \<Rightarrow>
          challenge_of ngx vr = Some (n, e) \<and> chal_accepted ngx shm env (sys_now (fst x)) plcf bnd (Some vr) w)"

text \<open>With the memory backend, the challenge check uses the zone once or not at all.\<close>

lemma validate_memory:
  assumes "nc_storage (nonce_backend plcf) = NONCE_MEMORY"
    and "validate_consume ngx shm redis now plcf bnd vr (Some z) = (rc, vr', zone')"
  shows "\<exists>z'. zone' = Some z' \<and>
     (rc \<noteq> NGX_OK \<and> z' = z \<or>
      (\<exists>n e c. challenge_of ngx vr = Some (n, e) \<and> mem_consume ngx shm z now n e = (c, z') \<and> (rc = NGX_OK \<longleftrightarrow> c = NGX_OK)))"
proof -
  have mem: "nonce_check_and_set ngx shm redis now vr (nonce_backend plcf) (Some z) n e = (c, v, zo, net) \<Longrightarrow>
      \<exists>z'. zo = Some z' \<and> mem_consume ngx shm z now n e = (c, z')" for n e c v zo net
    using assms(1) nonce_memory_consume [of ngx shm now vr z n e c v zo] by (auto simp: nonce_check_and_set_def split: prod.splits)
  show ?thesis
    using assms(2) by (auto simp: validate_consume_def challenge_of_def Let_def split: option.splits prod.splits if_splits dest!: mem)
qed

definition zone_step :: "ngx_lib \<Rightarrow> 'p ngx_shm \<Rightarrow> time_t \<Rightarrow> (bytes \<Rightarrow> time_t \<Rightarrow> bool) \<Rightarrow> 'p nonce_zone \<Rightarrow> 'p nonce_zone \<Rightarrow> bool" where
  "zone_step ngx shm now acc z z' \<longleftrightarrow>
     z' = z \<and> (\<forall>n e. \<not> acc n e) \<or>
     (\<exists>n e c. mem_consume ngx shm z now n e = (c, z') \<and> (\<forall>n' e'. acc n' e' \<longrightarrow> n' = n \<and> e' = e \<and> c = NGX_OK))"

lemma zone_after_step:
  assumes "nc_storage (nonce_backend plcf) = NONCE_MEMORY" "has_nonce_zone plcf"
  shows "zone_step ngx shm now (\<lambda>n e. (\<exists>vr. ch = Some vr \<and> challenge_of ngx vr = Some (n, e)) \<and>
     chal_accepted ngx shm env now plcf bnd ch w) (w_nonce_zone w) (zone_after ngx shm env now plcf bnd ch w)"
proof (cases ch)
  case (Some vr)
  obtain rc vr' zone' where v: "validate_consume ngx shm (env_redis env) now plcf bnd vr (nonce_zone_of plcf w) = (rc, vr', zone')"
    by (metis prod_cases3)
  then show ?thesis
    using validate_memory [OF assms(1), of ngx shm "env_redis env" now bnd vr "w_nonce_zone w" rc vr' zone'] assms(2) Some
    by (fastforce simp: zone_step_def zone_after_def chal_accepted_def nonce_zone_of_def put_nonce_zone_def)
qed (simp add: zone_step_def zone_after_def)

lemma step_zone:
  assumes "sys_step ngx shm plcf s l s'" "nc_storage (nonce_backend plcf) = NONCE_MEMORY" "has_nonce_zone plcf"
    and ok: "\<And>i c. sys_conns s i = Some c \<Longrightarrow> conn_ok ngx plcf c"
  shows "zone_step ngx shm (sys_now s) (accepts ngx shm plcf (s, l)) (sys_nonces s) (sys_nonces s')"
  using assms(1)
proof (cases rule: sys_step.cases)
  case (submit i c env w' rs' a')
  let ?w = "attach s (cn_worker c)"
  have "accepts ngx shm plcf (s, l) = (\<lambda>n e. (\<exists>vr. inline_check ngx env (cn_req c) plcf ?w = Some vr \<and> challenge_of ngx vr = Some (n, e)) \<and>
     chal_accepted ngx shm env (sys_now s) plcf (binding (cn_req c) plcf) (inline_check ngx env (cn_req c) plcf ?w) ?w)"
    using submit(1,3) by (intro ext) (auto simp: accepts_def split: option.splits)
  then show ?thesis
    using submit(2) submit_effect [OF submit(5)]
      zone_after_step [OF assms(2,3), of ngx shm "sys_now s" "inline_check ngx env (cn_req c) plcf ?w" env "binding (cn_req c) plcf" ?w]
    by simp
next
  case (thread i c tctx env tctx' zone')
  let ?w = "attach s (cn_worker c)" and ?ch = "gpg_good ngx env plcf (tctx_msg tctx) (tctx_vr tctx)"
    and ?b = "(tctx_ip tctx, tctx_ua tctx)"
  obtain rc vr eff where g: "gpg_verify ngx (env_gpg env) (gpg_path plcf) (keyring plcf) (tctx_msg tctx) (gpg_timeout plcf)
      (tctx_vr tctx) = (rc, vr, eff)" by (metis prod_cases3)
  have "sys_nonces s' = zone_after ngx shm env (sys_now s) plcf ?b ?ch ?w"
    using thread(2) gpg_thread_result(6,7) [OF thread(6) g]
    by (auto simp: zone_after_def gpg_good_def g put_nonce_zone_def nonce_zone_of_def split: prod.splits)
  moreover have "accepts ngx shm plcf (s, l) = (\<lambda>n e. (\<exists>vr. ?ch = Some vr \<and> challenge_of ngx vr = Some (n, e)) \<and>
     chal_accepted ngx shm env (sys_now s) plcf ?b ?ch ?w)"
    using thread(1,3,5) by (intro ext) (auto simp: accepts_def split: option.splits)
  ultimately show ?thesis
    using zone_after_step [OF assms(2,3), of ngx shm "sys_now s" ?ch env ?b ?w] by simp
next
  case (watchdog i c env w' rs' a')
  then show ?thesis by (auto simp: zone_step_def accepts_def verify_thread_done_def)
next
  case (complete i c env w' rs' a')
  obtain tctx where t: "req_ctx (cn_async c) = Some tctx" "thread_done_ok tctx" "\<not> ev_timedout (cn_async c)"
    using ok [OF complete(3)] complete(4) by (auto simp: conn_ok_def Let_def)
  show ?thesis using complete thread_done_effect(2) [OF complete(5) t(3,1,2)] by (simp add: zone_step_def accepts_def)
next
  case (handle i c env rc wants w' rs')
  then show ?thesis using handler_resp(3) [OF handle(5)] by (simp add: zone_step_def accepts_def)
qed (simp_all add: zone_step_def accepts_def)

lemma step_now: "sys_step ngx shm plcf s l s' \<Longrightarrow> sys_now s \<le> sys_now s'"
  by (erule sys_stepE) auto

text \<open>Every position of a trace is the end of a run of its own.\<close>

lemma run_prefix:
  assumes "sys_run ngx shm plcf s0 tr s" "q < length tr"
  shows "sys_run ngx shm plcf s0 (take q tr) (fst (tr ! q)) \<and> (\<exists>s'. sys_step ngx shm plcf (fst (tr ! q)) (snd (tr ! q)) s')"
  using assms
proof (induction rule: sys_run.induct)
  case (step s0 tr s l s')
  show ?case
  proof (cases "q < length tr")
    case True
    then show ?thesis using step.IH by (simp add: nth_append)
  next
    case False
    then have "q = length tr" using step.prems by simp
    then show ?thesis using step.hyps by auto
  qed
qed simp

text \<open>A challenge that was accepted is in the zone as long as it has not expired.\<close>

lemma run_spent:
  assumes "sys_run ngx shm plcf s0 tr s" "ngx_shm_api shm live"
    and mem: "nc_storage (nonce_backend plcf) = NONCE_MEMORY" "has_nonce_zone plcf"
    and "zone_ok (ngx_crc32_short ngx) live (sys_nonces s0)" "sys_conns s0 = (\<lambda>i. None)"
  shows "zone_ok (ngx_crc32_short ngx) live (sys_nonces s) \<and>
     (\<forall>p n e. p < length tr \<longrightarrow> accepts ngx shm plcf (tr ! p) n e \<longrightarrow> sys_now s < e \<longrightarrow> (n, e) \<in> spent (sys_nonces s))"
  using assms(1,5,6)
proof (induction rule: sys_run.induct)
  case (step s0 tr s l s')
  note store = ngx_shm_api.memory_store [OF assms(2), of ngx]
  have ok: "zone_ok (ngx_crc32_short ngx) live (sys_nonces s)"
    and sp: "\<And>p n e. p < length tr \<Longrightarrow> accepts ngx shm plcf (tr ! p) n e \<Longrightarrow> sys_now s < e \<Longrightarrow> (n, e) \<in> spent (sys_nonces s)"
    using step.IH step.prems by blast+
  have conns: "sys_conns s i = Some c \<Longrightarrow> conn_ok ngx plcf c" for i c
    using run_conn_ok [OF step.hyps(1)] step.prems(2) by simp
  from step_zone [OF step.hyps(2) mem conns]
  have z: "zone_step ngx shm (sys_now s) (accepts ngx shm plcf (s, l)) (sys_nonces s) (sys_nonces s')" .
  have "zone_ok (ngx_crc32_short ngx) live (sys_nonces s')"
    using z ok single_use_store.consume_store [OF store] by (auto simp: zone_step_def)
  moreover have "(n, e) \<in> spent (sys_nonces s')"
    if "p < length (tr @ [(s, l)])" "accepts ngx shm plcf ((tr @ [(s, l)]) ! p) n e" "sys_now s' < e" for p n e
  proof (cases "p < length tr")
    case True
    then have "(n, e) \<in> spent (sys_nonces s)" "sys_now s < e"
      using that sp step_now [OF step.hyps(2)] by (auto simp: nth_append)
    then show ?thesis using z ok single_use_store.spent_kept [OF store] by (auto simp: zone_step_def)
  next
    case False
    then have "accepts ngx shm plcf (s, l) n e" using that by (simp add: nth_append less_Suc_eq)
    then show ?thesis using z ok single_use_store.accepted_spent [OF store] by (auto simp: zone_step_def)
  qed
  ultimately show ?case by blast
qed simp

text \<open>Positions of a trace that accept the same nonce are not both before its expiry.\<close>

lemma run_accepts_once:
  assumes "sys_run ngx shm plcf s0 tr s" "ngx_shm_api shm live"
    and "nc_storage (nonce_backend plcf) = NONCE_MEMORY" "has_nonce_zone plcf"
    and "zone_ok (ngx_crc32_short ngx) live (sys_nonces s0)" "sys_conns s0 = (\<lambda>i. None)"
    and "p < q" "q < length tr" "accepts ngx shm plcf (tr ! p) n e" "sys_now (fst (tr ! q)) < e"
  shows "\<not> accepts ngx shm plcf (tr ! q) n e'"
proof -
  obtain s' where run: "sys_run ngx shm plcf s0 (take q tr) (fst (tr ! q))"
      and st: "sys_step ngx shm plcf (fst (tr ! q)) (snd (tr ! q)) s'" using run_prefix [OF assms(1,8)] by blast
  note store = ngx_shm_api.memory_store [OF assms(2), of ngx]
  have conns: "sys_conns (fst (tr ! q)) i = Some c \<Longrightarrow> conn_ok ngx plcf c" for i c
    using run_conn_ok [OF run] assms(6) by simp
  have "(n, e) \<in> spent (sys_nonces (fst (tr ! q)))" "zone_ok (ngx_crc32_short ngx) live (sys_nonces (fst (tr ! q)))"
    using run_spent [OF run assms(2-6)] assms(7-10) by auto
  moreover from step_zone [OF st assms(3,4) conns]
  have "zone_step ngx shm (sys_now (fst (tr ! q))) (accepts ngx shm plcf (tr ! q)) (sys_nonces (fst (tr ! q))) (sys_nonces s')"
    by simp
  ultimately show ?thesis
    using single_use_store.spent_refused [OF store] assms(10) by (fastforce simp: zone_step_def)
qed

section \<open>Sessions come from logins\<close>

text \<open>
  What stands behind a session cookie in a response: a step of the run, in the worker or on a thread, in which gpg
  accepted the message of the request as signed by a key of the keyring and the challenge in it was accepted.
\<close>

definition verified_in :: "ngx_lib \<Rightarrow> 'p ngx_shm \<Rightarrow> loc_conf \<Rightarrow> nat \<Rightarrow> conn \<Rightarrow> 'p sys \<times> label \<Rightarrow> verify_result \<Rightarrow> bool" where
  "verified_in ngx shm plcf i c x vr \<longleftrightarrow>
     (\<exists>env msg vr0. snd x \<in> {Submit i env, Thread i env} \<and> submitted ngx (cn_req c) plcf = Some msg \<and>
        gpg_good ngx env plcf msg vr0 = Some vr \<and>
        chal_accepted ngx shm env (sys_now (fst x)) plcf (binding (cn_req c) plcf) (Some vr) (attach (fst x) (cn_worker c)))"

text \<open>
  The cookie was issued for the fingerprint of that signature in the same step or in the completion, when
  the key was not on the revocation list.
\<close>

definition issued_in :: "ngx_lib \<Rightarrow> loc_conf \<Rightarrow> nat \<Rightarrow> conn \<Rightarrow> 'p sys \<times> label \<Rightarrow> bytes \<Rightarrow> bytes \<Rightarrow> bool" where
  "issued_in ngx plcf i c x fp v \<longleftrightarrow>
     (\<exists>env. snd x \<in> {Submit i env, Complete i env} \<and>
        issued ngx env (sys_now (fst x)) (cn_req c) plcf fp v \<and>
        \<not> fst (is_revoked ngx plcf (env_revoc env) fp (attach (fst x) (cn_worker c))))"

definition login_behind :: "ngx_lib \<Rightarrow> 'p ngx_shm \<Rightarrow> loc_conf \<Rightarrow> ('p sys \<times> label) list \<Rightarrow> nat \<Rightarrow> conn \<Rightarrow> bytes \<Rightarrow> bool" where
  "login_behind ngx shm plcf tr i c v \<longleftrightarrow>
     (\<exists>x y vr. x \<in> set tr \<and> y \<in> set tr \<and> verified_in ngx shm plcf i c x vr \<and> issued_in ngx plcf i c y (fpr vr) v)"

text \<open>The invariant: every cookie has a login behind it, and so has every good result of a thread.\<close>

definition sound_conn :: "ngx_lib \<Rightarrow> 'p ngx_shm \<Rightarrow> loc_conf \<Rightarrow> ('p sys \<times> label) list \<Rightarrow> nat \<Rightarrow> conn \<Rightarrow> bool" where
  "sound_conn ngx shm plcf tr i c \<longleftrightarrow>
     (\<forall>v \<in> cookies (cn_resp c). login_behind ngx shm plcf tr i c v) \<and>
     (cn_phase c = Ran \<longrightarrow> (\<forall>tctx. req_ctx (cn_async c) = Some tctx \<longrightarrow> tctx_gpg_rc tctx = NGX_OK \<longrightarrow>
        valid (tctx_vr tctx) \<longrightarrow> chal_rc (tctx_vr tctx) = NGX_OK \<longrightarrow>
        (\<exists>x vr. x \<in> set tr \<and> verified_in ngx shm plcf i c x vr \<and> fpr vr = fpr (tctx_vr tctx))))"

lemma login_behind_more:
  assumes "login_behind ngx shm plcf tr i c v" "cn_req c' = cn_req c" "cn_worker c' = cn_worker c"
  shows "login_behind ngx shm plcf (tr @ l) i c' v"
proof -
  obtain x y vr where "x \<in> set tr" "y \<in> set tr" "verified_in ngx shm plcf i c x vr" "issued_in ngx plcf i c y (fpr vr) v"
    using assms(1) by (auto simp: login_behind_def)
  then have "x \<in> set (tr @ l) \<and> y \<in> set (tr @ l) \<and> verified_in ngx shm plcf i c' x vr \<and> issued_in ngx plcf i c' y (fpr vr) v"
    using assms(2,3) by (simp add: verified_in_def issued_in_def)
  then show ?thesis unfolding login_behind_def by blast
qed

lemma sound_conn_more: "sound_conn ngx shm plcf tr i c \<Longrightarrow> sound_conn ngx shm plcf (tr @ l) i c"
  unfolding sound_conn_def using login_behind_more [of ngx shm plcf tr i c _ c l] by (fastforce simp: Un_iff)

text \<open>A step that does not end in a finished thread keeps the invariant if each new cookie has a login behind it.\<close>

lemma sound_connI:
  assumes "sound_conn ngx shm plcf tr i c" "cn_req c' = cn_req c" "cn_worker c' = cn_worker c" "cn_phase c' \<noteq> Ran"
    and "\<And>v. v \<in> cookies (cn_resp c') \<Longrightarrow> v \<in> cookies (cn_resp c) \<or> login_behind ngx shm plcf (tr @ [x]) i c' v"
  shows "sound_conn ngx shm plcf (tr @ [x]) i c'"
  using assms login_behind_more [OF _ assms(2,3)] unfolding sound_conn_def by blast

lemma sound_submit:
  assumes "sound_conn ngx shm plcf tr i c"
    and "auth_submit ngx shm env (sys_now s) (cn_req c) plcf (attach s (cn_worker c)) (cn_resp c) (cn_async c) = (w', rs', a')"
  shows "sound_conn ngx shm plcf (tr @ [(s, Submit i env)]) i
     (c\<lparr>cn_phase := (if req_ctx a' = None then Finished else Posted), cn_resp := rs', cn_async := a'\<rparr>)"
    (is "sound_conn _ _ _ ?tr i ?c")
proof (rule sound_connI [OF assms(1)])
  fix v
  assume v: "v \<in> cookies (cn_resp ?c)"
  show "v \<in> cookies (cn_resp c) \<or> login_behind ngx shm plcf ?tr i ?c v"
  proof (cases "v \<in> cookies (cn_resp c)")
    case False
    from submit_effect [OF assms(2), of v] v False obtain vr
      where vr: "inline_check ngx env (cn_req c) plcf (attach s (cn_worker c)) = Some vr"
        and acc: "chal_accepted ngx shm env (sys_now s) plcf (binding (cn_req c) plcf) (Some vr) (attach s (cn_worker c))"
        and iss: "issued ngx env (sys_now s) (cn_req c) plcf (fpr vr) v" by auto
    from vr obtain msg where "submitted ngx (cn_req c) plcf = Some msg" "gpg_good ngx env plcf msg (fresh_vr env) = Some vr"
        "\<not> fst (is_revoked ngx plcf (env_revoc env) (fpr vr) (attach s (cn_worker c)))"
      by (auto simp: inline_check_def split: if_splits option.splits)
    then have "verified_in ngx shm plcf i ?c (s, Submit i env) vr" "issued_in ngx plcf i ?c (s, Submit i env) (fpr vr) v"
      using acc iss by (auto simp: verified_in_def issued_in_def)
    then show ?thesis unfolding login_behind_def by fastforce
  qed simp
qed simp_all

lemma sound_thread:
  assumes "sound_conn ngx shm plcf tr i c" "conn_ok ngx plcf c" "cn_phase c = Posted" "req_ctx (cn_async c) = Some tctx"
    and t: "gpg_thread ngx shm env (sys_now s) plcf tctx (nonce_zone_of plcf (attach s (cn_worker c))) = (tctx', zone')"
  shows "sound_conn ngx shm plcf (tr @ [(s, Thread i env)]) i (c\<lparr>cn_phase := Ran, cn_async := (cn_async c)\<lparr>req_ctx := Some tctx'\<rparr>\<rparr>)"
    (is "sound_conn _ _ _ ?tr i ?c")
proof -
  obtain rc vr eff where g: "gpg_verify ngx (env_gpg env) (gpg_path plcf) (keyring plcf) (tctx_msg tctx) (gpg_timeout plcf)
      (tctx_vr tctx) = (rc, vr, eff)" by (metis prod_cases3)
  note r = gpg_thread_result [OF t g]
  have m: "submitted ngx (cn_req c) plcf = Some (tctx_msg tctx)" "(tctx_ip tctx, tctx_ua tctx) = binding (cn_req c) plcf"
    using assms(2-4) by (auto simp: conn_ok_def Let_def)
  have "verified_in ngx shm plcf i ?c (s, Thread i env) vr"
    if "tctx_gpg_rc tctx' = NGX_OK" "valid (tctx_vr tctx')" "chal_rc (tctx_vr tctx') = NGX_OK"
  proof -
    have "gpg_good ngx env plcf (tctx_msg tctx) (tctx_vr tctx) = Some vr" using that r(1,3) by (simp add: gpg_good_def g)
    moreover have "chal_accepted ngx shm env (sys_now s) plcf (binding (cn_req c) plcf) (Some vr) (attach s (cn_worker c))"
      using r(1,3,6) that m(2) by (auto simp: chal_accepted_def split: prod.splits)
    ultimately show ?thesis using m(1) by (auto simp: verified_in_def)
  qed
  then have "\<exists>x vr. x \<in> set ?tr \<and> verified_in ngx shm plcf i ?c x vr \<and> fpr vr = fpr (tctx_vr tctx')"
    if "tctx_gpg_rc tctx' = NGX_OK" "valid (tctx_vr tctx')" "chal_rc (tctx_vr tctx') = NGX_OK"
    using that r(4) by fastforce
  moreover have "\<forall>v \<in> cookies (cn_resp ?c). login_behind ngx shm plcf ?tr i ?c v"
    using assms(1) login_behind_more [of ngx shm plcf tr i c _ ?c] by (simp add: sound_conn_def)
  ultimately show ?thesis unfolding sound_conn_def by simp
qed

lemma sound_complete:
  assumes "sound_conn ngx shm plcf tr i c" "conn_ok ngx plcf c" "cn_phase c = Ran"
    and d: "verify_thread_done ngx shm env (sys_now s) (cn_req c) plcf (attach s (cn_worker c)) (cn_resp c) (cn_async c) = (w', rs', a')"
  shows "sound_conn ngx shm plcf (tr @ [(s, Complete i env)]) i (c\<lparr>cn_phase := Finished, cn_resp := rs', cn_async := a'\<rparr>)"
    (is "sound_conn _ _ _ ?tr i ?c")
proof (rule sound_connI [OF assms(1)])
  fix v
  assume v: "v \<in> cookies (cn_resp ?c)"
  obtain tctx where t: "req_ctx (cn_async c) = Some tctx" "thread_done_ok tctx" "\<not> ev_timedout (cn_async c)"
    using assms(2,3) by (auto simp: conn_ok_def Let_def)
  show "v \<in> cookies (cn_resp c) \<or> login_behind ngx shm plcf ?tr i ?c v"
  proof (cases "v \<in> cookies (cn_resp c)")
    case False
    with thread_done_effect(1) [OF d t(3,1,2), of v] v
    have e: "issued ngx env (sys_now s) (cn_req c) plcf (fpr (tctx_vr tctx)) v" "tctx_gpg_rc tctx = NGX_OK" "valid (tctx_vr tctx)"
        "chal_rc (tctx_vr tctx) = NGX_OK" "\<not> fst (is_revoked ngx plcf (env_revoc env) (fpr (tctx_vr tctx)) (attach s (cn_worker c)))"
      by auto
    obtain x vr where x: "x \<in> set tr" "verified_in ngx shm plcf i c x vr" "fpr vr = fpr (tctx_vr tctx)"
      using assms(1,3) t(1) e unfolding sound_conn_def by blast
    have "issued_in ngx plcf i ?c (s, Complete i env) (fpr vr) v" using e x(3) by (auto simp: issued_in_def)
    moreover have "verified_in ngx shm plcf i ?c x vr" using x(2) by (simp add: verified_in_def)
    ultimately show ?thesis unfolding login_behind_def using x(1) by fastforce
  qed simp
qed simp_all

lemma step_sound:
  assumes "sys_step ngx shm plcf s l s'" "\<And>i c. sys_conns s i = Some c \<Longrightarrow> conn_ok ngx plcf c"
    and snd: "\<And>i c. sys_conns s i = Some c \<Longrightarrow> sound_conn ngx shm plcf tr i c" and "sys_conns s' j = Some d"
  shows "sound_conn ngx shm plcf (tr @ [(s, l)]) j d"
proof (cases "sys_conns s j = Some d")
  case True
  then show ?thesis using sound_conn_more [OF snd] by blast
next
  case False
  show ?thesis
    using assms(1)
  proof (cases rule: sys_step.cases)
    case (accept i k r)
    then have "d = new_conn k r" using assms(4) False by (auto split: if_splits)
    then show ?thesis by (simp add: sound_conn_def new_conn_def)
  next
    case (tick t)
    then show ?thesis using assms(4) False by simp
  next
    case (handle i c env rc wants w' rs')
    then have "j = i" "d = c\<lparr>cn_phase := (if wants then Reading else Finished), cn_resp := rs'\<rparr>"
      using assms(4) False by (auto split: if_splits)
    moreover have "cookies rs' = cookies (cn_resp c)"
      using handler_resp(2) [OF handle(5)] send_challenge_cookies [of ngx env "sys_now s" "cn_req c" plcf False "cn_resp c"] by auto
    ultimately show ?thesis using sound_connI [OF snd [OF handle(3)], of d "(s, l)"] by simp
  next
    case (submit i c env w' rs' a')
    then show ?thesis using assms(4) False sound_submit [OF snd [OF submit(3)] submit(5)] by (auto split: if_splits)
  next
    case (thread i c tctx env tctx' zone')
    then show ?thesis
      using assms(4) False sound_thread [OF snd [OF thread(3)] assms(2) [OF thread(3)] thread(4-6)] by (auto split: if_splits)
  next
    case (watchdog i c env w' rs' a')
    have d: "j = i" "d = c\<lparr>cn_resp := rs', cn_async := a'\<rparr>" using assms(4) False watchdog(2) by (auto split: if_splits)
    have "rs' = cn_resp c" "a' = (cn_async c)\<lparr>ev_timer_set := False, ev_timedout := False\<rparr>"
      using watchdog(6) by (auto simp: verify_thread_done_def)
    with d have "sound_conn ngx shm plcf tr j d = sound_conn ngx shm plcf tr i c"
      by (simp add: sound_conn_def login_behind_def verified_in_def issued_in_def)
    then show ?thesis using sound_conn_more snd [OF watchdog(3)] by blast
  next
    case (complete i c env w' rs' a')
    then show ?thesis
      using assms(4) False sound_complete [OF snd [OF complete(3)] assms(2) [OF complete(3)] complete(4,5)] by (auto split: if_splits)
  qed
qed

lemma run_sound:
  assumes "sys_run ngx shm plcf s0 tr s" "sys_conns s0 = (\<lambda>i. None)"
  shows "sys_conns s i = Some c \<Longrightarrow> sound_conn ngx shm plcf tr i c"
  using assms
proof (induction arbitrary: i c rule: sys_run.induct)
  case (step s0 tr s l s')
  have "conn_ok ngx plcf c" if "sys_conns s i = Some c" for i c
    using run_conn_ok [OF step.hyps(1)] step.prems(2) that by simp
  then show ?case using step_sound [OF step.hyps(2) _ step.IH step.prems(1)] step.prems(2) by blast
qed simp

section \<open>Properties\<close>

text \<open>
  C2: no session without a login.  In every run from a state without requests, whatever the interleaving, each
  session cookie in a response has a step behind it in which gpg accepted this request's message
  as signed by a key of the keyring and the challenge in it passed the check (MAC, expiry, single use), and it
  was issued for that key's fingerprint in a step in which the key was not revoked.
\<close>

theorem system_login_sound:
  assumes "sys_run ngx shm plcf s0 tr s" "sys_conns s0 = (\<lambda>i. None)"
    and "sys_conns s i = Some c" "v \<in> cookies (cn_resp c)"
  shows "\<exists>x y vr. x \<in> set tr \<and> y \<in> set tr \<and> verified_in ngx shm plcf i c x vr \<and> issued_in ngx plcf i c y (fpr vr) v"
  using run_sound [OF assms(1-3)] assms(4) by (simp add: sound_conn_def login_behind_def)

text \<open>
  C3: the life of a request.  In every run, a request is pinned (\<open>blocked\<close>, \<open>aio\<close>) exactly while a
  verification on a thread is under way, it carries the thread's context while it is pinned, it is
  finalized at most once and never while it is pinned, and the watchdog timer runs only while it is pinned.
\<close>

theorem request_lifecycle:
  assumes "sys_run ngx shm plcf s0 tr s" "sys_conns s0 = (\<lambda>i. None)" "sys_conns s i = Some c"
  shows "(blocked (cn_async c) > 0 \<longleftrightarrow> cn_phase c \<in> {Posted, Ran}) \<and> blocked (cn_async c) \<le> 1 \<and>
     aio (cn_async c) = (blocked (cn_async c) > 0) \<and> (ev_timer_set (cn_async c) \<longrightarrow> blocked (cn_async c) > 0) \<and>
     length (rs_final (cn_resp c)) \<le> 1 \<and>
     (blocked (cn_async c) > 0 \<longrightarrow> req_ctx (cn_async c) \<noteq> None \<and> rs_final (cn_resp c) = [])"
  using run_conn_ok [OF assms(1) _ assms(3)] assms(2) by (auto simp: conn_ok_def Let_def)

text \<open>Two clients post the same signed challenge: a run in which the first logs in and the second is a replay.\<close>

definition sample_sys :: "slab_ref sys" where
  "sample_sys = \<lparr>sys_now = 1010, sys_nonces = sample_zone, sys_failures = sample_throttle,
     sys_workers = (\<lambda>k. sample_worker), sys_conns = (\<lambda>i. None)\<rparr>"

definition waiting :: conn where
  "waiting = (new_conn 0 sample_post)\<lparr>cn_phase := Reading\<rparr>"

definition sample_two :: "slab_ref sys" where
  "sample_two = put_conn 1 waiting (put_conn 0 waiting sample_sys)"

lemma sample_attach: "attach (s\<lparr>sys_conns := m\<rparr>) k = attach s k" "attach sample_sys k = sample_worker" "detach sample_sys k sample_worker = sample_sys"
  by (simp_all add: attach_def detach_def sample_sys_def sample_worker_def fun_eq_iff)

lemma detach_conns: "detach (s\<lparr>sys_conns := m\<rparr>) k w = (detach s k w)\<lparr>sys_conns := m\<rparr>"
  by (simp add: detach_def)

lemma sample_handle:
  "auth_handler ngx_ref (sample_login []) 1010 sample_post sample_conf sample_worker rs = (NGX_DONE, True, sample_worker, rs)"
proof -
  have "check_session ngx_ref (sample_login []) 1010 sample_post sample_conf sample_worker = (NGX_DECLINED, sample_worker)"
    by (simp add: check_session_def get_cookie_def sample_post_def sample_req_def)
  moreover have "throttle_is_banned ngx_ref 1010 (addr_text sample_post) (failure_zone_of sample_conf sample_worker) = (NGX_OK, [])"
    by (simp add: throttle_is_banned_def failure_zone_of_def sample_worker_def sample_throttle_def empty_zone_def
        throttle_lookup_def sample_post_def sample_req_def)
  ultimately show ?thesis
    by (simp add: auth_handler_def sample_post_def sample_req_def append_log_def special_response_def sample_login_def sample_http_def)
qed

lemma sample_arrive:
  assumes "s = sample_sys\<lparr>sys_conns := m\<rparr>" "m i = None" "sys_run ngx_ref shm_ref sample_conf s0 tr s"
  shows "\<exists>tr'. sys_run ngx_ref shm_ref sample_conf s0 (tr @ tr') (put_conn i waiting s)"
proof -
  let ?s = "put_conn i (new_conn 0 sample_post) s"
  have "sys_step ngx_ref shm_ref sample_conf s (Accept i 0 sample_post) ?s" using assms(1,2) by (intro sys_step.accept) simp
  moreover have "sys_step ngx_ref shm_ref sample_conf ?s (Handle i (sample_login [])) (put_conn i waiting s)"
    using sys_step.handle [of ?s i "new_conn 0 sample_post" ngx_ref "sample_login []" sample_conf NGX_DONE True sample_worker
        "cn_resp (new_conn 0 sample_post)" shm_ref] sample_handle [of new_resp] assms(1)
    by (simp add: put_conn_def sample_attach detach_conns waiting_def new_conn_def) (simp add: sample_sys_def)
  ultimately show ?thesis using sys_run.step [OF sys_run.step [OF assms(3)]] by (metis append.assoc)
qed

lemma sample_good:
  "\<exists>vr. inline_check ngx_ref (sample_login []) sample_post sample_conf sample_worker = Some vr \<and>
     challenge_of ngx_ref vr = Some (sample_nonce, 1120) \<and>
     chal_accepted ngx_ref shm_ref (sample_login []) 1010 sample_conf (binding sample_post sample_conf) (Some vr) sample_worker"
proof -
  obtain vr eff where g: "gpg_verify ngx_ref (sample_env sample_status (sample_challenge @ [LF]) True) ''/usr/bin/gpg''
       ''/etc/nginx/pubkeys.gpg'' sample_signed 2000 (fresh_vr (sample_login [])) = (NGX_OK, vr, eff)"
     "valid vr" "fpr vr = sample_fpr" "plaintext vr = sample_challenge @ [LF]" using sample_gpg by blast
  have "\<not> fst (is_revoked ngx_ref sample_conf (sample_list []) (fpr vr) sample_worker)"
    using sample_no_list [of ngx_ref sample_conf] by (simp add: sample_http_def)
  then have "inline_check ngx_ref (sample_login []) sample_post sample_conf sample_worker = Some vr"
    using g by (simp add: inline_check_def sample_submitted gpg_good_def)
  moreover have "challenge_of ngx_ref vr = Some (sample_nonce, 1120)"
    by (rule sample_token) (simp add: challenge_of_def g(4) ref_core.atotm_fmt time_max_def)
  moreover have "nonce_zone_of sample_conf sample_worker = Some sample_zone" by (simp add: nonce_zone_of_def sample_worker_def)
  ultimately show ?thesis using sample_validate [OF g(4)] by (simp add: chal_accepted_def sample_binding)
qed

lemma sample_waiting:
  "\<exists>tr. sys_run ngx_ref shm_ref sample_conf sample_sys tr sample_two"
proof -
  have "\<exists>tr. sys_run ngx_ref shm_ref sample_conf sample_sys ([] @ tr) (put_conn 0 waiting sample_sys)"
    by (rule sample_arrive [of sample_sys "\<lambda>i. None"]) (simp_all add: sample_sys_def sys_run.start)
  then obtain tr where "sys_run ngx_ref shm_ref sample_conf sample_sys tr (put_conn 0 waiting sample_sys)" by auto
  moreover have "put_conn 0 waiting sample_sys = sample_sys\<lparr>sys_conns := [0 \<mapsto> waiting]\<rparr>" by (simp add: put_conn_def sample_sys_def)
  ultimately show ?thesis
    using sample_arrive [of "put_conn 0 waiting sample_sys" "[0 \<mapsto> waiting]" 1 sample_sys tr] by (auto simp: sample_two_def)
qed

text \<open>A waiting request can always be submitted.\<close>

lemma submit_run:
  assumes "sys_run ngx shm plcf s0 tr s" "sys_conns s i = Some c" "cn_phase c = Reading"
  shows "\<exists>s'. sys_run ngx shm plcf s0 (tr @ [(s, Submit i env)]) s' \<and>
     (\<forall>j. j \<noteq> i \<longrightarrow> sys_conns s' j = sys_conns s j) \<and> sys_now s' = sys_now s \<and>
     (\<exists>c'. sys_conns s' i = Some c' \<and> cn_resp c' =
        fst (snd (auth_submit ngx shm env (sys_now s) (cn_req c) plcf (attach s (cn_worker c)) (cn_resp c) (cn_async c))))"
proof -
  obtain w' rs' a' where a: "auth_submit ngx shm env (sys_now s) (cn_req c) plcf (attach s (cn_worker c)) (cn_resp c) (cn_async c) = (w', rs', a')"
    by (metis prod_cases3)
  define c' where "c' = c\<lparr>cn_phase := (if req_ctx a' = None then Finished else Posted), cn_resp := rs', cn_async := a'\<rparr>"
  have "sys_run ngx shm plcf s0 (tr @ [(s, Submit i env)]) (put_conn i c' (detach s (cn_worker c) w'))"
    using sys_run.step [OF assms(1) sys_step.submit [OF assms(2,3) a]] by (simp add: c'_def)
  moreover have "cn_resp c' = rs'" by (simp add: c'_def)
  ultimately show ?thesis
    by (intro exI [of _ "put_conn i c' (detach s (cn_worker c) w')"]) (simp add: a)
qed

lemma sample_accepts: "accepts ngx_ref shm_ref sample_conf (sample_two, Submit 0 (sample_login [])) sample_nonce 1120"
proof -
  have "attach sample_two 0 = sample_worker" "sys_now sample_two = 1010" "sys_conns sample_two 0 = Some waiting"
    by (simp_all add: sample_two_def put_conn_def sample_attach) (simp_all add: sample_sys_def)
  moreover have "cn_req waiting = sample_post" "cn_worker waiting = 0" by (simp_all add: waiting_def new_conn_def)
  ultimately show ?thesis using sample_good by (auto simp: accepts_def)
qed

lemma sample_replay_run:
  "\<exists>tr s1 s2. sys_run ngx_ref shm_ref sample_conf sample_sys
     (tr @ [(sample_two, Submit 0 (sample_login [])), (s1, Submit 1 (sample_login []))]) s2 \<and> sys_now s1 = 1010"
proof -
  obtain tr where tr: "sys_run ngx_ref shm_ref sample_conf sample_sys tr sample_two" using sample_waiting by blast
  let ?x = "(sample_two, Submit 0 (sample_login []))"
  have w: "sys_conns sample_two 0 = Some waiting" "sys_conns sample_two 1 = Some waiting" "cn_phase waiting = Reading"
    "sys_now sample_two = 1010" by (simp_all add: sample_two_def waiting_def) (simp add: sample_sys_def)
  from submit_run [OF tr w(1,3), of "sample_login []"] w obtain s1
    where s1: "sys_run ngx_ref shm_ref sample_conf sample_sys (tr @ [?x]) s1" "sys_conns s1 1 = Some waiting" "sys_now s1 = 1010" by auto
  from submit_run [OF s1(1,2) w(3), of "sample_login []"] obtain s2
    where "sys_run ngx_ref shm_ref sample_conf sample_sys (tr @ [?x, (s1, Submit 1 (sample_login []))]) s2" by auto
  then show ?thesis using s1(3) by blast
qed

lemma sample_session:
  "\<exists>tr s c v. sys_run ngx_ref shm_ref sample_conf sample_sys tr s \<and> sys_conns s 0 = Some c \<and> v \<in> cookies (cn_resp c)"
proof -
  obtain tr where tr: "sys_run ngx_ref shm_ref sample_conf sample_sys tr sample_two" using sample_waiting by blast
  have w: "sys_conns sample_two 0 = Some waiting" "cn_phase waiting = Reading" by (simp_all add: sample_two_def waiting_def)
  let ?sub = "auth_submit ngx_ref shm_ref (sample_login []) 1010 sample_post sample_conf sample_worker new_resp new_async"
  have sub: "auth_submit ngx_ref shm_ref (sample_login []) (sys_now sample_two) (cn_req waiting) sample_conf
      (attach sample_two (cn_worker waiting)) (cn_resp waiting) (cn_async waiting) = ?sub"
    by (simp add: sample_two_def put_conn_def sample_attach waiting_def new_conn_def) (simp add: sample_sys_def)
  have "carried_out ngx_ref shm_ref (sample_login []) 1010 sample_post sample_conf (Granted sample_fpr) (w_failure_zone sample_worker)
       (new_resp\<lparr>rs_keepalive := False\<rparr>) (w_failure_zone (fst ?sub)) (fst (snd ?sub))"
    using submit_cases [OF surjective_pairing3 [of ?sub]] sample_outcome by (simp add: posted_def)
  then have "cookies (fst (snd ?sub)) \<noteq> {}" by (auto simp: carried_out_def cookies_def)
  then show ?thesis using submit_run [OF tr w, of "sample_login []"] unfolding sub by force
qed

theorem system_login_sound_witness:
  "\<exists>tr s c v x vr. sys_run ngx_ref shm_ref sample_conf sample_sys tr s \<and> sys_conns s 0 = Some c \<and> v \<in> cookies (cn_resp c) \<and>
     x \<in> set tr \<and> verified_in ngx_ref shm_ref sample_conf 0 c x vr"
proof -
  obtain tr s c v where r: "sys_run ngx_ref shm_ref sample_conf sample_sys tr s" "sys_conns s 0 = Some c" "v \<in> cookies (cn_resp c)"
    using sample_session by blast
  from system_login_sound [OF r(1) _ r(2,3)] have "\<exists>x vr. x \<in> set tr \<and> verified_in ngx_ref shm_ref sample_conf 0 c x vr"
    by (auto simp: sample_sys_def)
  then show ?thesis using r by blast
qed

theorem request_lifecycle_witness:
  "\<exists>tr s c. sys_run ngx_ref shm_ref sample_conf sample_sys tr s \<and> sys_conns s 0 = Some c \<and> cookies (cn_resp c) \<noteq> {} \<and>
     length (rs_final (cn_resp c)) \<le> 1"
proof -
  obtain tr s c v where r: "sys_run ngx_ref shm_ref sample_conf sample_sys tr s" "sys_conns s 0 = Some c" "v \<in> cookies (cn_resp c)"
    using sample_session by blast
  from request_lifecycle [OF r(1) _ r(2)] have "length (rs_final (cn_resp c)) \<le> 1" by (simp add: sample_sys_def)
  then show ?thesis using r by blast
qed

end
