(* ===== verification/Config.thy ===== *)
theory Config
  imports Loc_Conf
begin

text \<open>
  Reading and merging the configuration in \<open>ngx_http_pgp_auth_module.c\<close>: the directive table, the functions
  that create and merge location configurations, and the loading and locking of secrets.
\<close>

section \<open>The configuration as it is read\<close>

text \<open>
  \<open>ngx_http_pgp_auth_loc_conf_t\<close> before it is merged.  A field that still holds nginx's unset value (\<open>NGX_CONF_UNSET\<close>
  or a NULL string) is \<open>None\<close>; the loaded secrets are empty, and the zones and the pool absent, until the merge sets them.
\<close>

record lconf =
  c_enable :: "bool option"
  c_keyring :: "bytes option"
  c_challenge_timeout :: "time_t option"
  c_session_timeout :: "time_t option"
  c_cookie_secure :: "bool option"
  c_cookie_host_prefix :: "bool option"
  c_cookie_samesite :: "samesite option"
  c_bind_ip :: "bool option"
  c_bind_ua :: "bool option"
  c_nonce_storage :: "nonce_storage option"
  c_nonce_zone :: bool
  c_failure_zone :: bool
  c_failure_limit :: "nat option"
  c_failure_window :: "time_t option"
  c_failure_ban_time :: "time_t option"
  c_failure_zone_size :: "nat option"
  c_nonce_zone_size :: "nat option"
  c_nonce_addr :: "bytes option"
  c_nonce_password :: "bytes option"
  c_nonce_password_file :: "bytes option"
  c_nonce_key_prefix :: "bytes option"
  c_nonce_tls :: "bool option"
  c_nonce_tls_verify :: "bool option"
  c_nonce_tls_ca :: "bytes option"
  c_nonce_tls_name :: "bytes option"
  c_revocation_list :: "bytes option"
  c_revoc_fail_open :: "bool option"
  c_revoc_max_size :: "nat option"
  c_gpg_timeout :: "nat option"
  c_max_body_size :: "nat option"
  c_gpg_path :: "bytes option"
  c_secret_file :: "bytes option"
  c_secret :: bytes
  c_secret_previous_file :: "bytes option"
  c_secret_previous :: bytes
  c_disable_core_dumps :: "bool option"
  c_mlock_required :: "bool option"
  c_thread_pool_name :: "bytes option"
  c_thread_pool :: bool

definition unset_conf :: lconf where
  "unset_conf = \<lparr>c_enable = None, c_keyring = None, c_challenge_timeout = None, c_session_timeout = None,
     c_cookie_secure = None, c_cookie_host_prefix = None, c_cookie_samesite = None, c_bind_ip = None, c_bind_ua = None,
     c_nonce_storage = None, c_nonce_zone = False, c_failure_zone = False, c_failure_limit = None,
     c_failure_window = None, c_failure_ban_time = None, c_failure_zone_size = None, c_nonce_zone_size = None,
     c_nonce_addr = None, c_nonce_password = None, c_nonce_password_file = None, c_nonce_key_prefix = None,
     c_nonce_tls = None, c_nonce_tls_verify = None, c_nonce_tls_ca = None, c_nonce_tls_name = None,
     c_revocation_list = None, c_revoc_fail_open = None, c_revoc_max_size = None, c_gpg_timeout = None,
     c_max_body_size = None, c_gpg_path = None, c_secret_file = None, c_secret = [], c_secret_previous_file = None,
     c_secret_previous = [], c_disable_core_dumps = None, c_mlock_required = None, c_thread_pool_name = None,
     c_thread_pool = False\<rparr>"

text \<open>\<open>ngx_http_pgp_auth_create_loc_conf\<close>; \<open>None\<close> is a failed allocation.\<close>

definition create_loc_conf :: "bool \<Rightarrow> lconf option" where
  "create_loc_conf pcalloc_ok = (if \<not> pcalloc_ok then None else Some unset_conf)"

section \<open>Directives\<close>












section \<open>What the rest of the system answers at start-up\<close>

text \<open>
  A secret file: whether it can be opened, its size and mode, whether memory for it can be had, and the bytes a read
  delivers (\<open>None\<close> for an error).
\<close>

record secret_file =
  sf_open_ok :: bool
  sf_info :: "(int \<times> nat) option"
  sf_alloc_ok :: bool
  sf_read :: "bytes option"

text \<open>
  \<open>ngx_threads\<close> is the build option; \<open>shm_nonce\<close> and \<open>shm_failure\<close> are what \<open>ngx_shared_memory_add\<close> returned for the two zones.
\<close>

record conf_env =
  ngx_threads :: bool
  setrlimit_ok :: bool
  thread_pool_add_ok :: "bytes \<Rightarrow> bool"
  shm_nonce :: "bool option"
  shm_failure :: "bool option"
  zone_ctx_alloc_ok :: bool
  conf_full_name :: "bytes \<Rightarrow> bytes option"
  secret_at :: "bytes \<Rightarrow> secret_file"
  secret_alloc_ok :: bool
  rand_secret :: "bytes option"
  mlock_ok :: "bytes \<Rightarrow> bool"

text \<open>A step of the configuration logs and then goes on with a value or stops with \<open>NGX_CONF_ERROR\<close>.\<close>

type_synonym 'a cf = "log \<times> 'a option"

definition go :: "'a \<Rightarrow> 'a cf" where
  "go x = ([], Some x)"

definition say :: "nat \<Rightarrow> bytes \<Rightarrow> 'a \<Rightarrow> 'a cf" where
  "say level msg x = ([(level, msg)], Some x)"

definition stop :: "log \<Rightarrow> 'a cf" where
  "stop l = (l, None)"

definition and_then :: "'a cf \<Rightarrow> ('a \<Rightarrow> 'b cf) \<Rightarrow> 'b cf" where
  "and_then m f = (case m of (l, None) \<Rightarrow> (l, None) | (l, Some x) \<Rightarrow> (l @ fst (f x), snd (f x)))"

fun run_steps :: "('a \<Rightarrow> 'a cf) list \<Rightarrow> 'a \<Rightarrow> 'a cf" where
  "run_steps [] x = go x"
| "run_steps (s # ss) x = and_then (s x) (run_steps ss)"

section \<open>Secrets\<close>

definition mlock_secret :: "conf_env \<Rightarrow> bytes \<Rightarrow> bool \<Rightarrow> 'a \<Rightarrow> 'a cf" where
  "mlock_secret env s required x =
     (if s = [] \<or> mlock_ok env s then go x
      else let msg = ''pgp_auth: mlock() on the secret buffer failed'' @ (if required then '''' else '' (continuing without it)'') @
             ''; raise RLIMIT_MEMLOCK for the nginx user to enable this hardening'' @
             (if required then '', or set pgp_mlock_required off'' else '''')
           in if required then stop [(NGX_LOG_EMERG, msg)] else say NGX_LOG_ERR msg x)"

definition is_space :: "char \<Rightarrow> bool" where
  "is_space c \<longleftrightarrow> c = LF \<or> c = CR \<or> c = SPACE \<or> c = TAB"

definition trim_end :: "bytes \<Rightarrow> bytes" where
  "trim_end s = rev (dropWhile is_space (rev s))"

definition octal_digit :: "ngx_lib \<Rightarrow> nat \<Rightarrow> bytes" where
  "octal_digit ngx n = ngx_fmt_T ngx (int (n mod 8))"

definition load_secret :: "ngx_lib \<Rightarrow> conf_env \<Rightarrow> bytes \<Rightarrow> bytes cf" where
  "load_secret ngx env path =
     (let f = secret_at env path; name = ''pgp_auth: secret file '' @ quoted path in
      if \<not> sf_open_ok f then stop [(NGX_LOG_EMERG, ''pgp_auth: cannot open secret file '' @ quoted path)]
      else case sf_info f of
        None \<Rightarrow> stop [(NGX_LOG_EMERG, name @ '' is empty'')]
      | Some (sz, mode) \<Rightarrow>
          if sz \<le> 0 then stop [(NGX_LOG_EMERG, name @ '' is empty'')]
          else if sz > 65536 then
            stop [(NGX_LOG_EMERG, name @ '' is '' @ ngx_fmt_T ngx sz @
              '' bytes; a secret file must be at most 64k -- check the path'')]
          else let warn = (if mode mod 64 \<noteq> 0
                 then [(NGX_LOG_WARN, name @ '' is group/world-accessible (mode 0'' @ octal_digit ngx (mode div 64) @
                   octal_digit ngx (mode div 8) @ octal_digit ngx mode @ ''); restrict it to the nginx user (chmod 600)'')]
                 else []) in
            if \<not> sf_alloc_ok f then stop warn
            else case sf_read f of
              None \<Rightarrow> stop warn
            | Some buf \<Rightarrow>
                let buf = take (nat sz) buf; s = trim_end buf in
                if buf = [] then stop warn
                else if s = [] then stop (warn @ [(NGX_LOG_EMERG, name @ '' has no content'')])
                else (warn @ (if length s < 16
                        then [(NGX_LOG_WARN, name @ '' is only '' @ ngx_fmt_T ngx (int (length s)) @
                          '' bytes; use at least 16 (scripts/gen-secret.sh produces a strong secret)'')]
                        else []), Some s))"

section \<open>Merging the values\<close>

text \<open>\<open>ngx_conf_merge_value\<close> and its variants: the own value, else that of the outer level, else the default.\<close>

definition merge_value :: "'a option \<Rightarrow> 'a option \<Rightarrow> 'a \<Rightarrow> 'a option" where
  "merge_value own outer dflt = Some (case own of Some v \<Rightarrow> v | None \<Rightarrow> (case outer of Some v \<Rightarrow> v | None \<Rightarrow> dflt))"

definition NGX_HTTP_PGP_NONCE_ZONE_SIZE :: nat where
  "NGX_HTTP_PGP_NONCE_ZONE_SIZE = 8 * 1024 * 1024"

definition NGX_HTTP_PGP_THROTTLE_ZONE_SIZE :: nat where
  "NGX_HTTP_PGP_THROTTLE_ZONE_SIZE = 1 * 1024 * 1024"

definition merge_challenge :: "lconf \<Rightarrow> lconf \<Rightarrow> lconf" where
  "merge_challenge prev c = c\<lparr>
     c_enable := merge_value (c_enable c) (c_enable prev) False,
     c_keyring := merge_value (c_keyring c) (c_keyring prev) ''/etc/nginx/pubkeys.gpg'',
     c_challenge_timeout := merge_value (c_challenge_timeout c) (c_challenge_timeout prev) 120\<rparr>"

definition clamp_challenge :: "ngx_lib \<Rightarrow> lconf \<Rightarrow> lconf cf" where
  "clamp_challenge ngx c =
     (let t = the (c_challenge_timeout c); name = ''pgp_auth: pgp_challenge_timeout '' @ ngx_fmt_T ngx t in
      if t < 5 then
        say NGX_LOG_ERR (name @ ''s is below the 5s minimum; clamping to 5s'') (c\<lparr>c_challenge_timeout := Some 5\<rparr>)
      else if t > 3600 then
        say NGX_LOG_ERR (name @ ''s is above the 3600s maximum; clamping to 3600s'') (c\<lparr>c_challenge_timeout := Some 3600\<rparr>)
      else go c)"

definition merge_session :: "lconf \<Rightarrow> lconf \<Rightarrow> lconf" where
  "merge_session prev c = c\<lparr>
     c_session_timeout := merge_value (c_session_timeout c) (c_session_timeout prev) 3600,
     c_cookie_secure := merge_value (c_cookie_secure c) (c_cookie_secure prev) True,
     c_cookie_host_prefix := merge_value (c_cookie_host_prefix c) (c_cookie_host_prefix prev) True,
     c_cookie_samesite := merge_value (c_cookie_samesite c) (c_cookie_samesite prev) SAMESITE_LAX,
     c_bind_ip := merge_value (c_bind_ip c) (c_bind_ip prev) True,
     c_bind_ua := merge_value (c_bind_ua c) (c_bind_ua prev) True,
     c_disable_core_dumps := merge_value (c_disable_core_dumps c) (c_disable_core_dumps prev) True,
     c_mlock_required := merge_value (c_mlock_required c) (c_mlock_required prev) False,
     c_nonce_storage := merge_value (c_nonce_storage c) (c_nonce_storage prev) NONCE_MEMORY,
     c_nonce_zone_size := merge_value (c_nonce_zone_size c) (c_nonce_zone_size prev) NGX_HTTP_PGP_NONCE_ZONE_SIZE,
     c_failure_limit := merge_value (c_failure_limit c) (c_failure_limit prev) 0,
     c_failure_window := merge_value (c_failure_window c) (c_failure_window prev) 60,
     c_failure_ban_time := merge_value (c_failure_ban_time c) (c_failure_ban_time prev) 300,
     c_failure_zone_size := merge_value (c_failure_zone_size c) (c_failure_zone_size prev) NGX_HTTP_PGP_THROTTLE_ZONE_SIZE\<rparr>"

definition clamp_session :: "ngx_lib \<Rightarrow> lconf \<Rightarrow> lconf cf" where
  "clamp_session ngx c =
     (let t = the (c_session_timeout c) in
      if t > 2592000 then
        say NGX_LOG_ERR (''pgp_auth: pgp_session_timeout '' @ ngx_fmt_T ngx t @ ''s is above the 30d maximum; '' @
          ''clamping to 2592000s (set 0 if you deliberately want no expiry)'') (c\<lparr>c_session_timeout := Some 2592000\<rparr>)
      else go c)"

definition clamp_window :: "ngx_lib \<Rightarrow> lconf \<Rightarrow> lconf cf" where
  "clamp_window ngx c =
     (let t = the (c_failure_window c) in
      if the (c_failure_limit c) > 0 \<and> (t < 1 \<or> t > 3600) then
        say NGX_LOG_ERR (''pgp_auth: pgp_auth_failure_window '' @ ngx_fmt_T ngx t @ ''s is outside 1s..1h; using 60s'')
          (c\<lparr>c_failure_window := Some 60\<rparr>)
      else go c)"

definition clamp_ban_time :: "ngx_lib \<Rightarrow> lconf \<Rightarrow> lconf cf" where
  "clamp_ban_time ngx c =
     (let t = the (c_failure_ban_time c) in
      if the (c_failure_limit c) > 0 \<and> (t < 1 \<or> t > 86400) then
        say NGX_LOG_ERR (''pgp_auth: pgp_auth_failure_ban_time '' @ ngx_fmt_T ngx t @ ''s is outside 1s..24h; using 300s'')
          (c\<lparr>c_failure_ban_time := Some 300\<rparr>)
      else go c)"

definition merge_store :: "lconf \<Rightarrow> lconf \<Rightarrow> lconf" where
  "merge_store prev c = c\<lparr>
     c_nonce_addr := merge_value (c_nonce_addr c) (c_nonce_addr prev) '''',
     c_nonce_tls := merge_value (c_nonce_tls c) (c_nonce_tls prev) False,
     c_nonce_tls_verify := merge_value (c_nonce_tls_verify c) (c_nonce_tls_verify prev) True,
     c_nonce_tls_ca := merge_value (c_nonce_tls_ca c) (c_nonce_tls_ca prev) '''',
     c_nonce_tls_name := merge_value (c_nonce_tls_name c) (c_nonce_tls_name prev) '''',
     c_nonce_password := merge_value (c_nonce_password c) (c_nonce_password prev) '''',
     c_revocation_list := merge_value (c_revocation_list c) (c_revocation_list prev) '''',
     c_revoc_fail_open := merge_value (c_revoc_fail_open c) (c_revoc_fail_open prev) False,
     c_revoc_max_size := merge_value (c_revoc_max_size c) (c_revoc_max_size prev) (1024 * 1024),
     c_nonce_key_prefix := merge_value (c_nonce_key_prefix c) (c_nonce_key_prefix prev) ''pgp:'',
     c_gpg_timeout := merge_value (c_gpg_timeout c) (c_gpg_timeout prev) 2000\<rparr>"

definition clamp_gpg_timeout :: "ngx_lib \<Rightarrow> lconf \<Rightarrow> lconf cf" where
  "clamp_gpg_timeout ngx c =
     (let t = the (c_gpg_timeout c); name = ''pgp_auth: pgp_gpg_timeout '' @ ngx_fmt_T ngx (int t) in
      if t < 1000 then
        say NGX_LOG_ERR (name @ ''ms is below the 1s minimum; clamping to 1s'') (c\<lparr>c_gpg_timeout := Some 1000\<rparr>)
      else if t > 60000 then
        say NGX_LOG_ERR (name @ ''ms is above the 60s maximum; clamping to 60s'') (c\<lparr>c_gpg_timeout := Some 60000\<rparr>)
      else go c)"

definition merge_gpg :: "lconf \<Rightarrow> lconf \<Rightarrow> lconf" where
  "merge_gpg prev c = c\<lparr>
     c_max_body_size := merge_value (c_max_body_size c) (c_max_body_size prev) 16384,
     c_secret_file := merge_value (c_secret_file c) (c_secret_file prev) '''',
     c_gpg_path := merge_value (c_gpg_path c) (c_gpg_path prev) ''/usr/bin/gpg'',
     c_thread_pool_name := merge_value (c_thread_pool_name c) (c_thread_pool_name prev) ''default''\<rparr>"

definition merge_values :: "ngx_lib \<Rightarrow> lconf \<Rightarrow> lconf \<Rightarrow> lconf cf" where
  "merge_values ngx prev =
     run_steps [go \<circ> merge_challenge prev, clamp_challenge ngx, go \<circ> merge_session prev, clamp_session ngx,
       clamp_window ngx, clamp_ban_time ngx, go \<circ> merge_store prev, clamp_gpg_timeout ngx, go \<circ> merge_gpg prev]"

section \<open>An enabled location\<close>

text \<open>A string field as \<open>data\<close> and \<open>len\<close> show it: NULL has length zero.\<close>

definition str_of :: "bytes option \<Rightarrow> bytes" where
  "str_of s = (case s of None \<Rightarrow> [] | Some v \<Rightarrow> v)"

definition is_absolute :: "bytes \<Rightarrow> bool" where
  "is_absolute p \<longleftrightarrow> p \<noteq> [] \<and> hd p = CHR ''/''"

definition no_core_dumps :: "conf_env \<Rightarrow> lconf \<Rightarrow> lconf cf" where
  "no_core_dumps env c =
     (if the (c_disable_core_dumps c) \<and> \<not> setrlimit_ok env then
        say NGX_LOG_NOTICE (''pgp_auth: setrlimit(RLIMIT_CORE, 0) failed (continuing without it); '' @
          ''set pgp_disable_core_dumps off to silence this '' @
          ''if core dumps are intentionally enabled for this worker'') c
      else go c)"

definition resolve_thread_pool :: "conf_env \<Rightarrow> lconf \<Rightarrow> lconf cf" where
  "resolve_thread_pool env c =
     (let name = str_of (c_thread_pool_name c) in
      if \<not> ngx_threads env then go c
      else if length name = 3 \<and> starts_with ''off'' name then go (c\<lparr>c_thread_pool := False\<rparr>)
      else if \<not> thread_pool_add_ok env name then stop []
      else go (c\<lparr>c_thread_pool := True\<rparr>))"

definition check_gpg_path :: "lconf \<Rightarrow> lconf cf" where
  "check_gpg_path c =
     (if \<not> is_absolute (str_of (c_gpg_path c))
      then stop [(NGX_LOG_EMERG, ''pgp_auth: pgp_gpg_path must be an absolute path'')] else go c)"

definition warn_host_prefix :: "lconf \<Rightarrow> lconf cf" where
  "warn_host_prefix c =
     (if the (c_cookie_host_prefix c) \<and> \<not> the (c_cookie_secure c) then
        say NGX_LOG_WARN (''pgp_auth: pgp_session_cookie_host_prefix is ignored because '' @
          ''pgp_session_cookie_secure is off (the __Host- prefix requires '' @ ''Secure); using the unprefixed cookie name'') c
      else go c)"

definition warn_samesite :: "lconf \<Rightarrow> lconf cf" where
  "warn_samesite c =
     (if the (c_cookie_samesite c) = SAMESITE_NONE \<and> \<not> the (c_cookie_secure c) then
        say NGX_LOG_WARN (''pgp_auth: pgp_session_cookie_samesite None requires '' @
          ''pgp_session_cookie_secure on; browsers reject a SameSite=None '' @ ''cookie without Secure'') c
      else go c)"

definition warn_fail_open :: "lconf \<Rightarrow> lconf cf" where
  "warn_fail_open c =
     (if the (c_revoc_fail_open c) \<and> str_of (c_revocation_list c) \<noteq> [] then
        say NGX_LOG_WARN (''pgp_auth: pgp_revocation_fail_open is on -- if '' @ quoted (str_of (c_revocation_list c)) @
          '' becomes unreadable, revoked keys will be allowed to authenticate'') c
      else go c)"

definition check_password_len :: "ngx_lib \<Rightarrow> lconf \<Rightarrow> lconf cf" where
  "check_password_len ngx c =
     (let n = length (str_of (c_nonce_password c)) in
      if n > 256 then
        stop [(NGX_LOG_EMERG, ''pgp_auth: pgp_auth_nonce_storage_password is too long ('' @ ngx_fmt_T ngx (int n) @
          '' bytes, maximum 256)'')]
      else go c)"

definition check_keyring :: "lconf \<Rightarrow> lconf cf" where
  "check_keyring c =
     (if \<not> is_absolute (str_of (c_keyring c))
      then stop [(NGX_LOG_EMERG, ''pgp_auth: pgp_keyring must be an absolute path'')] else go c)"

definition set_nonce_zone :: "conf_env \<Rightarrow> lconf \<Rightarrow> lconf \<Rightarrow> lconf cf" where
  "set_nonce_zone env prev c =
     (if the (c_nonce_storage c) = NONCE_MEMORY \<or> the (c_nonce_storage c) = NONCE_REDIS then
        (let z = (if c_nonce_zone prev then True else fst (nonce_add_zone (shm_nonce env) (zone_ctx_alloc_ok env))) in
         if \<not> z then stop [] else go (c\<lparr>c_nonce_zone := z\<rparr>))
      else go c)"

definition check_addr :: "lconf \<Rightarrow> lconf cf" where
  "check_addr c =
     (if the (c_nonce_storage c) = NONCE_REDIS \<and> str_of (c_nonce_addr c) = [] then
        stop [(NGX_LOG_EMERG, ''pgp_auth: pgp_auth_nonce_storage_address is required for redis'')]
      else go c)"

definition set_failure_zone :: "ngx_lib \<Rightarrow> conf_env \<Rightarrow> lconf \<Rightarrow> lconf \<Rightarrow> lconf cf" where
  "set_failure_zone ngx env prev c =
     (if the (c_failure_limit c) > 0 then
        (let z = (if c_failure_zone prev then True else fst (throttle_add_zone (shm_failure env) (zone_ctx_alloc_ok env)));
             c = c\<lparr>c_failure_zone := z\<rparr> in
         if \<not> z then stop []
         else if \<not> c_failure_zone prev \<or> c_failure_limit c \<noteq> c_failure_limit prev \<or>
           c_failure_window c \<noteq> c_failure_window prev \<or> c_failure_ban_time c \<noteq> c_failure_ban_time prev
         then say NGX_LOG_NOTICE (''pgp_auth: failure throttle on: limit '' @ ngx_fmt_T ngx (int (the (c_failure_limit c))) @
           '', window '' @ ngx_fmt_T ngx (the (c_failure_window c)) @ ''s, ban '' @ ngx_fmt_T ngx (the (c_failure_ban_time c)) @
           ''s; it bans by client address -- behind a proxy '' @
           ''configure ngx_http_realip_module, otherwise every client '' @
           ''shares one address and a single abuser locks out all of them'') c
         else go c)
      else go c)"

text \<open>\<open>ngx_strncmp (a, b, n) == 0\<close> for two strings of length \<open>n\<close>.\<close>

definition same_text :: "bytes \<Rightarrow> bytes \<Rightarrow> bool" where
  "same_text a b \<longleftrightarrow> length a = length b \<and> c_str a = c_str b"

definition password_exclusive :: "lconf \<Rightarrow> lconf cf" where
  "password_exclusive c =
     (if str_of (c_nonce_password c) \<noteq> [] \<and> str_of (c_nonce_password_file c) \<noteq> [] then
        stop [(NGX_LOG_EMERG, ''pgp_auth: set only one of pgp_auth_nonce_storage_password or '' @
          ''pgp_auth_nonce_storage_password_file, not both'')]
      else go c)"

text \<open>Reading a secret through its full name.\<close>

definition load_named :: "ngx_lib \<Rightarrow> conf_env \<Rightarrow> bytes \<Rightarrow> (bytes \<times> bytes) cf" where
  "load_named ngx env path =
     (case conf_full_name env path of
        None \<Rightarrow> stop []
      | Some full \<Rightarrow> and_then (load_secret ngx env full) (\<lambda>s. go (full, s)))"

definition set_password :: "ngx_lib \<Rightarrow> conf_env \<Rightarrow> lconf \<Rightarrow> lconf \<Rightarrow> lconf cf" where
  "set_password ngx env prev c =
     (let file = str_of (c_nonce_password_file c) in
      if file = [] then go c
      else if str_of (c_nonce_password prev) \<noteq> [] \<and> same_text file (str_of (c_nonce_password_file prev)) then
        go (c\<lparr>c_nonce_password := c_nonce_password prev\<rparr>)
      else and_then (load_named ngx env file)
        (\<lambda>(full, s). go (c\<lparr>c_nonce_password_file := Some full, c_nonce_password := Some s\<rparr>)))"

definition set_secret :: "ngx_lib \<Rightarrow> conf_env \<Rightarrow> lconf \<Rightarrow> lconf \<Rightarrow> lconf cf" where
  "set_secret ngx env prev c =
     (let file = str_of (c_secret_file c) in
      if c_secret prev \<noteq> [] \<and> same_text file (str_of (c_secret_file prev)) then go (c\<lparr>c_secret := c_secret prev\<rparr>)
      else if file \<noteq> [] then
        and_then (load_named ngx env file) (\<lambda>(full, s). go (c\<lparr>c_secret_file := Some full, c_secret := s\<rparr>))
      else if \<not> secret_alloc_ok env then stop []
      else case rand_secret env of
        None \<Rightarrow> stop [(NGX_LOG_EMERG, ''pgp_auth: RAND_bytes() failed'')]
      | Some s \<Rightarrow>
          say NGX_LOG_WARN (''pgp_auth: no pgp_session_secret set; using a random per-process '' @
            ''secret (sessions reset on reload and are not shared across '' @ ''instances)'') (c\<lparr>c_secret := s\<rparr>))"

definition set_previous :: "ngx_lib \<Rightarrow> conf_env \<Rightarrow> lconf \<Rightarrow> lconf \<Rightarrow> lconf cf" where
  "set_previous ngx env prev c =
     (let file = str_of (c_secret_previous_file c) in
      if c_secret_previous prev \<noteq> [] \<and> same_text file (str_of (c_secret_previous_file prev)) then
        go (c\<lparr>c_secret_previous := c_secret_previous prev\<rparr>)
      else if file = [] then go c
      else and_then (load_named ngx env file)
        (\<lambda>(full, s).
           let c' = c\<lparr>c_secret_previous_file := Some full, c_secret_previous := s\<rparr> in
           if same_text s (c_secret c) then
             say NGX_LOG_WARN (''pgp_auth: pgp_session_secret_previous is identical to '' @
               ''pgp_session_secret; it has no effect and can be removed '' @ ''once the rotation window has passed'') c'
           else go c'))"

definition lock_secrets :: "conf_env \<Rightarrow> lconf \<Rightarrow> lconf cf" where
  "lock_secrets env c =
     run_steps [\<lambda>c. mlock_secret env (c_secret c) (the (c_mlock_required c)) c,
       \<lambda>c. mlock_secret env (c_secret_previous c) (the (c_mlock_required c)) c,
       \<lambda>c. mlock_secret env (str_of (c_nonce_password c)) (the (c_mlock_required c)) c] c"

definition enabled_steps :: "ngx_lib \<Rightarrow> conf_env \<Rightarrow> lconf \<Rightarrow> (lconf \<Rightarrow> lconf cf) list" where
  "enabled_steps ngx env prev =
     [no_core_dumps env, resolve_thread_pool env, check_gpg_path, warn_host_prefix, warn_samesite, warn_fail_open,
      check_password_len ngx, check_keyring, set_nonce_zone env prev, check_addr, set_failure_zone ngx env prev,
      password_exclusive, set_password ngx env prev, set_secret ngx env prev, set_previous ngx env prev, lock_secrets env]"

text \<open>\<open>ngx_http_pgp_auth_merge_loc_conf\<close>.\<close>

definition merge_loc_conf :: "ngx_lib \<Rightarrow> conf_env \<Rightarrow> lconf \<Rightarrow> lconf \<Rightarrow> lconf cf" where
  "merge_loc_conf ngx env prev c =
     and_then (merge_values ngx prev c)
       (\<lambda>c. if \<not> the (c_enable c) then go c else run_steps (enabled_steps ngx env prev) c)"

text \<open>
  \<open>ngx_http_pgp_auth_init\<close>: the handler is put into the precontent phase, whose handlers are \<open>hs\<close>.
\<close>

definition auth_init :: "bool \<Rightarrow> 'h \<Rightarrow> 'h list \<Rightarrow> ngx_rc \<times> 'h list" where
  "auth_init push_ok handler hs = (if \<not> push_ok then (NGX_ERROR, hs) else (NGX_OK, hs @ [handler]))"

text \<open>The merged configuration as the request code reads it.\<close>

definition resolve :: "lconf \<Rightarrow> loc_conf" where
  "resolve c = \<lparr>enable = the (c_enable c), keyring = str_of (c_keyring c), challenge_timeout = the (c_challenge_timeout c),
     session_timeout = the (c_session_timeout c), cookie_secure = the (c_cookie_secure c),
     cookie_host_prefix = the (c_cookie_host_prefix c), cookie_samesite = the (c_cookie_samesite c),
     bind_ip = the (c_bind_ip c), bind_ua = the (c_bind_ua c), has_nonce_zone = c_nonce_zone c,
     has_failure_zone = c_failure_zone c, failure_limit = the (c_failure_limit c),
     failure_window = the (c_failure_window c), failure_ban_time = the (c_failure_ban_time c),
     nonce_backend = \<lparr>nc_storage = the (c_nonce_storage c), nc_addr = str_of (c_nonce_addr c),
       nc_password = str_of (c_nonce_password c), nc_key_prefix = str_of (c_nonce_key_prefix c),
       nc_tls = the (c_nonce_tls c), nc_tls_verify = the (c_nonce_tls_verify c), nc_tls_ca = str_of (c_nonce_tls_ca c),
       nc_tls_name = str_of (c_nonce_tls_name c)\<rparr>,
     revocation_list = str_of (c_revocation_list c), revoc_fail_open = the (c_revoc_fail_open c),
     revoc_max_size = the (c_revoc_max_size c), gpg_timeout = int (the (c_gpg_timeout c)),
     max_body_size = the (c_max_body_size c), gpg_path = str_of (c_gpg_path c), secret = c_secret c,
     secret_previous = c_secret_previous c, thread_pool = c_thread_pool c\<rparr>"

section \<open>Composition of steps\<close>

lemma go_simps [simp]: "fst (go x) = []" "snd (go x) = Some x" "(go x = (l, Some y)) = (l = [] \<and> y = x)"
  by (auto simp: go_def)

lemma say_simps [simp]: "snd (say lv m x) = Some x" "(say lv m x = (l, Some y)) = (l = [(lv, m)] \<and> y = x)"
  by (auto simp: say_def)

lemma stop_simps [simp]: "snd (stop l) = None" "stop l \<noteq> (l', Some y)"
  by (auto simp: stop_def)

lemma snd_and_then [simp]: "snd (and_then m f) = Option.bind (snd m) (snd \<circ> f)"
  by (auto simp: and_then_def split: prod.splits option.splits)

lemma and_then_Some:
  "and_then m f = (l, Some y) \<longleftrightarrow> (\<exists>l1 x l2. m = (l1, Some x) \<and> f x = (l2, Some y) \<and> l = l1 @ l2)"
  by (auto simp: and_then_def prod_eq_iff split: prod.splits option.splits)

text \<open>Steps that respect a relation compose, and what one step establishes and all keep holds at the end.\<close>

lemma run_steps_keep:
  assumes "run_steps ss x = (l, Some y)" "P x" "\<And>s x l y. s \<in> set ss \<Longrightarrow> s x = (l, Some y) \<Longrightarrow> P x \<Longrightarrow> P y"
  shows "P y"
  using assms
proof (induction ss arbitrary: x l)
  case Nil
  from Nil.prems(1,2) show ?case by simp
next
  case (Cons s ss)
  from Cons.prems(1) obtain l1 x1 l2 where "s x = (l1, Some x1)" "run_steps ss x1 = (l2, Some y)" by (auto simp: and_then_Some)
  then show ?case using Cons.IH [of x1 l2] Cons.prems(2,3) by (metis list.set_intros)
qed

lemma run_steps_establish_under:
  assumes "run_steps ss x = (l, Some y)" "s \<in> set ss" "I x"
    and "\<And>x l y. s x = (l, Some y) \<Longrightarrow> I x \<Longrightarrow> P y"
    and "\<And>s x l y. s \<in> set ss \<Longrightarrow> s x = (l, Some y) \<Longrightarrow> I x \<Longrightarrow> I y"
    and "\<And>s x l y. s \<in> set ss \<Longrightarrow> s x = (l, Some y) \<Longrightarrow> I x \<Longrightarrow> P x \<Longrightarrow> P y"
  shows "P y"
  using assms
proof (induction ss arbitrary: x l)
  case Nil
  from Nil.prems(2) show ?case by simp
next
  case (Cons t ss)
  from Cons.prems(1) obtain l1 x1 l2 where t: "t x = (l1, Some x1)" and r: "run_steps ss x1 = (l2, Some y)" by (auto simp: and_then_Some)
  have x1: "I x1" using Cons.prems(3,5) t by (meson list.set_intros(1))
  show ?case
  proof (cases "s = t")
    case True
    then have "I x1 \<and> P x1" using t x1 Cons.prems(3,4) by blast
    then have "I y \<and> P y"
      using run_steps_keep [OF r, of "\<lambda>x. I x \<and> P x"] Cons.prems(5,6) by (metis list.set_intros(2))
    then show ?thesis by simp
  next
    case False
    then show ?thesis using Cons.IH [OF r _ x1] Cons.prems(2,4-6) by (metis set_ConsD list.set_intros(2))
  qed
qed

lemmas run_steps_establish = run_steps_establish_under [where I = "\<lambda>x. True", simplified]

lemma run_steps_append: "run_steps (xs @ ys) x = and_then (run_steps xs x) (run_steps ys)"
  by (induction xs arbitrary: x) (auto simp: and_then_def go_def split: prod.splits option.splits)

section \<open>The merged values\<close>

text \<open>The values after merging and clamping, as a function of the own and the outer configuration.\<close>

definition own_or_outer :: "'a option \<Rightarrow> 'a option \<Rightarrow> 'a \<Rightarrow> 'a" where
  "own_or_outer own outer dflt = (case own of Some v \<Rightarrow> v | None \<Rightarrow> (case outer of Some v \<Rightarrow> v | None \<Rightarrow> dflt))"

lemma merge_value_eq: "merge_value own outer dflt = Some (own_or_outer own outer dflt)"
  by (simp add: merge_value_def own_or_outer_def)

lemma clamp_results:
  "c_challenge_timeout c = Some t \<Longrightarrow>
     snd (clamp_challenge ngx c) = Some (c\<lparr>c_challenge_timeout := Some (max 5 (min 3600 t))\<rparr>)"
  "c_session_timeout c = Some t \<Longrightarrow> snd (clamp_session ngx c) = Some (c\<lparr>c_session_timeout := Some (min 2592000 t)\<rparr>)"
  "c_failure_window c = Some t \<Longrightarrow> snd (clamp_window ngx c) =
     Some (c\<lparr>c_failure_window := Some (if the (c_failure_limit c) > 0 \<and> (t < 1 \<or> t > 3600) then 60 else t)\<rparr>)"
  "c_failure_ban_time c = Some t \<Longrightarrow> snd (clamp_ban_time ngx c) =
     Some (c\<lparr>c_failure_ban_time := Some (if the (c_failure_limit c) > 0 \<and> (t < 1 \<or> t > 86400) then 300 else t)\<rparr>)"
  "c_gpg_timeout c = Some m \<Longrightarrow> snd (clamp_gpg_timeout ngx c) = Some (c\<lparr>c_gpg_timeout := Some (max 1000 (min 60000 m))\<rparr>)"
  by (cases c, simp add: clamp_challenge_def clamp_session_def clamp_window_def clamp_ban_time_def clamp_gpg_timeout_def Let_def)+

definition merged_values :: "lconf \<Rightarrow> lconf \<Rightarrow> lconf" where
  "merged_values prev c =
     (let c1 = merge_challenge prev c;
          c2 = merge_session prev (c1\<lparr>c_challenge_timeout :=
            Some (max 5 (min 3600 (own_or_outer (c_challenge_timeout c) (c_challenge_timeout prev) 120)))\<rparr>);
          limited = own_or_outer (c_failure_limit c) (c_failure_limit prev) 0 > 0;
          win = own_or_outer (c_failure_window c) (c_failure_window prev) 60;
          ban = own_or_outer (c_failure_ban_time c) (c_failure_ban_time prev) 300;
          c3 = merge_store prev (c2\<lparr>
            c_session_timeout := Some (min 2592000 (own_or_outer (c_session_timeout c) (c_session_timeout prev) 3600)),
            c_failure_window := Some (if limited \<and> (win < 1 \<or> win > 3600) then 60 else win),
            c_failure_ban_time := Some (if limited \<and> (ban < 1 \<or> ban > 86400) then 300 else ban)\<rparr>)
      in merge_gpg prev (c3\<lparr>c_gpg_timeout :=
            Some (max 1000 (min 60000 (own_or_outer (c_gpg_timeout c) (c_gpg_timeout prev) 2000)))\<rparr>))"

lemma merge_values_result: "snd (merge_values ngx prev c) = Some (merged_values prev c)"
  by (simp add: merge_values_def merged_values_def clamp_results merge_challenge_def merge_session_def merge_store_def merge_gpg_def
      merge_value_eq Let_def)

definition settings :: "lconf \<Rightarrow> lconf" where
  "settings c = c\<lparr>c_nonce_zone := False, c_failure_zone := False, c_thread_pool := False, c_secret := [], c_secret_previous := [],
     c_secret_file := None, c_secret_previous_file := None, c_nonce_password := None, c_nonce_password_file := None\<rparr>"

declare no_core_dumps_def [step_defs] resolve_thread_pool_def [step_defs] check_gpg_path_def [step_defs]
  warn_host_prefix_def [step_defs] warn_samesite_def [step_defs] warn_fail_open_def [step_defs]
  check_password_len_def [step_defs] check_keyring_def [step_defs] set_nonce_zone_def [step_defs]
  check_addr_def [step_defs] set_failure_zone_def [step_defs] password_exclusive_def [step_defs]
  set_password_def [step_defs] set_previous_def [step_defs]

lemmas enabled_step_defs = step_defs set_secret_def

lemma mlock_keeps: "mlock_secret env s req c = (l, Some c') \<Longrightarrow> c' = c"
  by (auto simp: mlock_secret_def Let_def split: if_splits)

lemma lock_keeps: "lock_secrets env c = (l, Some c') \<Longrightarrow> c' = c"
  by (auto simp: lock_secrets_def and_then_Some dest!: mlock_keeps)

lemma steps_keep_settings:
  assumes "s \<in> set (enabled_steps ngx env prev)" "s c = (l, Some c')"
  shows "settings c' = settings c"
  using assms
  by (auto simp: enabled_steps_def enabled_step_defs settings_def Let_def and_then_Some dest!: lock_keeps split: if_splits option.splits)

lemma merge_cases:
  assumes "merge_loc_conf ngx env prev c = (l, Some d)"
  shows "d = merged_values prev c \<and> \<not> the (c_enable (merged_values prev c)) \<or>
     the (c_enable (merged_values prev c)) \<and> (\<exists>l'. run_steps (enabled_steps ngx env prev) (merged_values prev c) = (l', Some d))"
proof -
  obtain l1 x l2 where x: "merge_values ngx prev c = (l1, Some x)"
      and d: "(if \<not> the (c_enable x) then go x else run_steps (enabled_steps ngx env prev) x) = (l2, Some d)"
    using assms by (auto simp: merge_loc_conf_def and_then_Some)
  have "x = merged_values prev c" using merge_values_result [of ngx prev c] x by simp
  then show ?thesis using d by (auto split: if_splits)
qed

lemma merge_keeps_settings:
  assumes "merge_loc_conf ngx env prev c = (l, Some d)"
  shows "settings d = settings (merged_values prev c)"
  using merge_cases [OF assms]
proof
  assume "the (c_enable (merged_values prev c)) \<and>
     (\<exists>l'. run_steps (enabled_steps ngx env prev) (merged_values prev c) = (l', Some d))"
  then obtain l' where r: "run_steps (enabled_steps ngx env prev) (merged_values prev c) = (l', Some d)" by blast
  show ?thesis
    by (rule run_steps_keep [OF r, where P = "\<lambda>x. settings x = settings (merged_values prev c)"])
      (auto dest: steps_keep_settings)
qed simp

text \<open>What the fields of two configurations with the same settings have in common.\<close>

lemma settings_fields:
  assumes "settings d = settings c"
  shows "c_enable d = c_enable c" "c_keyring d = c_keyring c" "c_challenge_timeout d = c_challenge_timeout c"
    "c_session_timeout d = c_session_timeout c" "c_cookie_secure d = c_cookie_secure c"
    "c_cookie_host_prefix d = c_cookie_host_prefix c" "c_cookie_samesite d = c_cookie_samesite c"
    "c_bind_ip d = c_bind_ip c" "c_bind_ua d = c_bind_ua c" "c_nonce_storage d = c_nonce_storage c"
    "c_failure_limit d = c_failure_limit c" "c_failure_window d = c_failure_window c"
    "c_failure_ban_time d = c_failure_ban_time c" "c_nonce_addr d = c_nonce_addr c"
    "c_nonce_key_prefix d = c_nonce_key_prefix c" "c_nonce_tls d = c_nonce_tls c" "c_nonce_tls_verify d = c_nonce_tls_verify c"
    "c_revocation_list d = c_revocation_list c" "c_revoc_fail_open d = c_revoc_fail_open c"
    "c_revoc_max_size d = c_revoc_max_size c" "c_gpg_timeout d = c_gpg_timeout c" "c_max_body_size d = c_max_body_size c"
    "c_gpg_path d = c_gpg_path c" "c_nonce_tls_ca d = c_nonce_tls_ca c" "c_nonce_tls_name d = c_nonce_tls_name c"
    "c_disable_core_dumps d = c_disable_core_dumps c" "c_mlock_required d = c_mlock_required c"
    "c_nonce_zone_size d = c_nonce_zone_size c" "c_failure_zone_size d = c_failure_zone_size c"
    "c_thread_pool_name d = c_thread_pool_name c"
  using assms by (cases c; cases d; simp add: settings_def)+

lemmas merged_defs = merged_values_def merge_challenge_def merge_session_def merge_store_def merge_gpg_def merge_value_eq Let_def

lemma trim_end_spec: "trim_end s = t \<longleftrightarrow> (\<exists>ws. s = t @ ws \<and> list_all is_space ws \<and> (t = [] \<or> \<not> is_space (last t)))"
proof
  assume t: "trim_end s = t"
  have "s = t @ rev (takeWhile is_space (rev s))"
    unfolding t [symmetric] trim_end_def by (metis rev_append rev_rev_ident takeWhile_dropWhile_id)
  moreover have "t = [] \<or> \<not> is_space (last t)"
    unfolding t [symmetric] trim_end_def by (metis hd_dropWhile last_rev rev.simps(1) rev_rev_ident)
  moreover have "list_all is_space (rev (takeWhile is_space (rev s)))" by (auto simp: list_all_iff dest: set_takeWhileD)
  ultimately show "\<exists>ws. s = t @ ws \<and> list_all is_space ws \<and> (t = [] \<or> \<not> is_space (last t))" by blast
next
  assume "\<exists>ws. s = t @ ws \<and> list_all is_space ws \<and> (t = [] \<or> \<not> is_space (last t))"
  then obtain ws where s: "s = t @ ws" "list_all is_space ws" "t = [] \<or> \<not> is_space (last t)" by blast
  then have "dropWhile is_space (rev s) = dropWhile is_space (rev t)"
    by (simp add: dropWhile_append list_all_iff)
  also have "\<dots> = rev t" using s(3) by (cases t rule: rev_cases) auto
  finally show "trim_end s = t" by (simp add: trim_end_def)
qed

lemma load_secret_Some:
  "load_secret ngx env path = (l, Some s) \<Longrightarrow>
     sf_open_ok (secret_at env path) \<and> sf_alloc_ok (secret_at env path) \<and>
     (\<exists>sz mode buf. sf_info (secret_at env path) = Some (sz, mode) \<and> 0 < sz \<and> sz \<le> 65536 \<and>
        sf_read (secret_at env path) = Some buf \<and> trim_end (take (nat sz) buf) = s \<and> s \<noteq> [])"
  by (auto simp: load_secret_def Let_def split: if_splits option.splits)

lemma load_secret_result:
  assumes "sf_open_ok (secret_at env path)" "sf_alloc_ok (secret_at env path)" "sf_info (secret_at env path) = Some (sz, mode)"
    and "0 < sz" "sz \<le> 65536" "sf_read (secret_at env path) = Some buf"
  shows "snd (load_secret ngx env path) = (if trim_end (take (nat sz) buf) = [] then None else Some (trim_end (take (nat sz) buf)))"
  using assms by (auto simp: load_secret_def Let_def trim_end_def split: if_splits)

lemma load_named_Some: "load_named ngx env path = (l, Some (full, s)) \<Longrightarrow> s \<noteq> [] \<and> conf_full_name env path = Some full"
  by (auto simp: load_named_def and_then_Some dest: load_secret_Some split: option.splits)

text \<open>Each requirement on an enabled location is established by one step and kept by the others.\<close>

lemma enabled_zone:
  assumes "run_steps (enabled_steps ngx env prev) c = (l, Some d)"
  shows "the (c_nonce_storage d) = NONCE_MEMORY \<or> the (c_nonce_storage d) = NONCE_REDIS \<longrightarrow> c_nonce_zone d"
proof (rule run_steps_establish [OF assms, of "set_nonce_zone env prev"
      "\<lambda>d. the (c_nonce_storage d) = NONCE_MEMORY \<or> the (c_nonce_storage d) = NONCE_REDIS \<longrightarrow> c_nonce_zone d"])
  fix s x l y
  assume "s \<in> set (enabled_steps ngx env prev)" "s x = (l, Some y)"
    "the (c_nonce_storage x) = NONCE_MEMORY \<or> the (c_nonce_storage x) = NONCE_REDIS \<longrightarrow> c_nonce_zone x"
  then show "the (c_nonce_storage y) = NONCE_MEMORY \<or> the (c_nonce_storage y) = NONCE_REDIS \<longrightarrow> c_nonce_zone y"
    by (auto simp: enabled_steps_def enabled_step_defs Let_def and_then_Some dest!: lock_keeps split: if_splits option.splits)
qed (auto simp: enabled_steps_def set_nonce_zone_def Let_def split: if_splits)

lemma enabled_throttle:
  assumes "run_steps (enabled_steps ngx env prev) c = (l, Some d)"
  shows "the (c_failure_limit d) > 0 \<longrightarrow> c_failure_zone d"
proof (rule run_steps_establish [OF assms, of "set_failure_zone ngx env prev" "\<lambda>d. the (c_failure_limit d) > 0 \<longrightarrow> c_failure_zone d"])
  fix s x l y
  assume "s \<in> set (enabled_steps ngx env prev)" "s x = (l, Some y)" "the (c_failure_limit x) > 0 \<longrightarrow> c_failure_zone x"
  then show "the (c_failure_limit y) > 0 \<longrightarrow> c_failure_zone y"
    by (auto simp: enabled_steps_def enabled_step_defs Let_def and_then_Some dest!: lock_keeps split: if_splits option.splits)
qed (auto simp: enabled_steps_def set_failure_zone_def Let_def split: if_splits)

lemma set_secret_nonempty:
  "set_secret ngx env prev c = (l, Some d) \<Longrightarrow> rand_secret env \<noteq> Some [] \<Longrightarrow> c_secret d \<noteq> []"
  by (auto simp: set_secret_def Let_def and_then_Some dest: load_named_Some split: if_splits option.splits)

lemma steps_keep_secret:
  assumes "s \<in> set (enabled_steps ngx env prev)" "s x = (l, Some y)" "s \<noteq> set_secret ngx env prev"
  shows "c_secret y = c_secret x"
  using assms
  by (auto simp: enabled_steps_def step_defs Let_def and_then_Some dest!: lock_keeps split: if_splits option.splits)

lemma enabled_secret:
  assumes "run_steps (enabled_steps ngx env prev) c = (l, Some d)" "rand_secret env \<noteq> Some []"
  shows "c_secret d \<noteq> []"
proof (rule run_steps_establish [OF assms(1), of "set_secret ngx env prev" "\<lambda>d. c_secret d \<noteq> []"])
  fix s x l y
  assume "s \<in> set (enabled_steps ngx env prev)" "s x = (l, Some y)" "c_secret x \<noteq> []"
  then show "c_secret y \<noteq> []" using steps_keep_secret set_secret_nonempty [OF _ assms(2)] by metis
next
  show "set_secret ngx env prev \<in> set (enabled_steps ngx env prev)" by (simp add: enabled_steps_def)
qed (rule set_secret_nonempty [OF _ assms(2)])

lemma enabled_checks:
  assumes r: "run_steps (enabled_steps ngx env prev) c = (l, Some d)"
  shows "is_absolute (str_of (c_gpg_path d))" "is_absolute (str_of (c_keyring d))"
    "the (c_nonce_storage d) = NONCE_REDIS \<longrightarrow> str_of (c_nonce_addr d) \<noteq> []"
proof -
  have keep: "s \<in> set (enabled_steps ngx env prev) \<Longrightarrow> s x = (l, Some y) \<Longrightarrow>
      c_gpg_path y = c_gpg_path x \<and> c_keyring y = c_keyring x \<and> c_nonce_storage y = c_nonce_storage x \<and> c_nonce_addr y = c_nonce_addr x"
    for s x l y using settings_fields [OF steps_keep_settings [of s ngx env prev x l y]] by blast
  show "is_absolute (str_of (c_gpg_path d))"
    by (rule run_steps_establish [OF r, of check_gpg_path "\<lambda>d. is_absolute (str_of (c_gpg_path d))"])
      (auto simp: keep, auto simp: enabled_steps_def check_gpg_path_def split: if_splits)
  show "is_absolute (str_of (c_keyring d))"
    by (rule run_steps_establish [OF r, of check_keyring "\<lambda>d. is_absolute (str_of (c_keyring d))"])
      (auto simp: keep, auto simp: enabled_steps_def check_keyring_def split: if_splits)
  show "the (c_nonce_storage d) = NONCE_REDIS \<longrightarrow> str_of (c_nonce_addr d) \<noteq> []"
    by (rule run_steps_establish [OF r, of check_addr "\<lambda>d. the (c_nonce_storage d) = NONCE_REDIS \<longrightarrow> str_of (c_nonce_addr d) \<noteq> []"])
      (auto simp: keep, auto simp: enabled_steps_def check_addr_def split: if_splits)
qed

text \<open>What a location below one with a secret does about its own secrets.\<close>

lemma same_text_refl [simp]: "same_text s s"
  by (simp add: same_text_def)

lemma inherit_secret:
  assumes r: "run_steps (enabled_steps ngx env prev) c = (l, Some d)"
    and "c_secret prev \<noteq> []" "same_text (str_of (c_secret_file c)) (str_of (c_secret_file prev))"
  shows "c_secret d = c_secret prev"
proof (rule run_steps_establish_under [OF r, of "set_secret ngx env prev"
      "\<lambda>x. same_text (str_of (c_secret_file x)) (str_of (c_secret_file prev))" "\<lambda>d. c_secret d = c_secret prev"])
  fix s x l y
  assume s: "s \<in> set (enabled_steps ngx env prev)" "s x = (l, Some y)" and
    I: "same_text (str_of (c_secret_file x)) (str_of (c_secret_file prev))"
  have set: "set_secret ngx env prev x = go (x\<lparr>c_secret := c_secret prev\<rparr>)" using I assms(2) by (simp add: set_secret_def Let_def)
  have path: "c_secret_file y = c_secret_file x"
  proof (cases "s = set_secret ngx env prev")
    case True
    then show ?thesis using s(2) set by simp
  next
    case False
    then show ?thesis
      using s by (auto simp: enabled_steps_def step_defs Let_def and_then_Some dest!: lock_keeps split: if_splits option.splits)
  qed
  then show "same_text (str_of (c_secret_file y)) (str_of (c_secret_file prev))" using I by simp
  assume "c_secret x = c_secret prev"
  then show "c_secret y = c_secret prev" using steps_keep_secret [OF s] s(2) set by (cases "s = set_secret ngx env prev") auto
qed (use assms(2,3) in \<open>auto simp: enabled_steps_def set_secret_def Let_def\<close>)

lemma no_previous_file:
  assumes r: "run_steps (enabled_steps ngx env prev) c = (l, Some d)"
    and "str_of (c_secret_previous_file c) = []" "str_of (c_secret_previous_file prev) \<noteq> []"
  shows "c_secret_previous d = c_secret_previous c"
proof -
  have "str_of (c_secret_previous_file d) = [] \<and> c_secret_previous d = c_secret_previous c"
  proof (rule run_steps_keep [OF r, where P = "\<lambda>x. str_of (c_secret_previous_file x) = [] \<and> c_secret_previous x = c_secret_previous c"])
    fix s x l y
    assume s: "s \<in> set (enabled_steps ngx env prev)" "s x = (l, Some y)"
      and P: "str_of (c_secret_previous_file x) = [] \<and> c_secret_previous x = c_secret_previous c"
    have "set_previous ngx env prev x = go x" using P assms(3) by (simp add: set_previous_def Let_def same_text_def)
    then show "str_of (c_secret_previous_file y) = [] \<and> c_secret_previous y = c_secret_previous c"
      using s P by (auto simp: enabled_steps_def enabled_step_defs Let_def and_then_Some dest!: lock_keeps split: if_splits option.splits)
  qed (use assms(2) in simp)
  then show ?thesis by simp
qed

text \<open>
  A location that names a password file below a level that has a password is always rejected, also when it is the file the
  password came from: the merge has copied the password by then.
\<close>

lemma password_file_repeated_fails:
  assumes "c_nonce_password prev = Some p" "p \<noteq> []" "c_nonce_password c = None" "c_nonce_password_file c = Some f" "f \<noteq> []"
    and "own_or_outer (c_enable c) (c_enable prev) False"
  shows "snd (merge_loc_conf ngx env prev c) = None"
proof (rule ccontr)
  assume "snd (merge_loc_conf ngx env prev c) \<noteq> None"
  then obtain l d where m: "merge_loc_conf ngx env prev c = (l, Some d)" by (metis option.exhaust prod.collapse)
  let ?P = "\<lambda>x. str_of (c_nonce_password x) \<noteq> [] \<and> str_of (c_nonce_password_file x) \<noteq> []"
  have "the (c_enable (merged_values prev c))" using assms(6) by (simp add: merged_defs)
  then obtain l' where r: "run_steps (enabled_steps ngx env prev) (merged_values prev c) = (l', Some d)" using merge_cases [OF m] by blast
  let ?pre = "take 11 (enabled_steps ngx env prev)"
  have steps: "enabled_steps ngx env prev = ?pre @ password_exclusive # drop 12 (enabled_steps ngx env prev)"
    by (simp add: enabled_steps_def)
  then obtain l1 x where pre: "run_steps ?pre (merged_values prev c) = (l1, Some x)" and x: "snd (password_exclusive x) \<noteq> None"
    using r run_steps_append [of ?pre "password_exclusive # drop 12 (enabled_steps ngx env prev)"] by (auto simp: and_then_Some)
  have "?P x"
  proof (rule run_steps_keep [OF pre, where P = ?P])
    fix s x l y
    assume "s \<in> set ?pre" "s x = (l, Some y)" "?P x"
    then show "?P y" by (auto simp: enabled_steps_def step_defs Let_def split: if_splits option.splits)
  qed (use assms in \<open>simp add: merged_defs own_or_outer_def str_of_def\<close>)
  then show False using x by (simp add: password_exclusive_def)
qed

lemma merged_values_fields:
  shows "c_enable (merged_values prev c) = Some (own_or_outer (c_enable c) (c_enable prev) False)"
    "c_keyring (merged_values prev c) = Some (own_or_outer (c_keyring c) (c_keyring prev) ''/etc/nginx/pubkeys.gpg'')"
    "c_challenge_timeout (merged_values prev c) = Some (max 5 (min 3600 (own_or_outer (c_challenge_timeout c) (c_challenge_timeout prev) 120)))"
    "c_session_timeout (merged_values prev c) = Some (min 2592000 (own_or_outer (c_session_timeout c) (c_session_timeout prev) 3600))"
    "c_cookie_secure (merged_values prev c) = Some (own_or_outer (c_cookie_secure c) (c_cookie_secure prev) True)"
    "c_cookie_host_prefix (merged_values prev c) = Some (own_or_outer (c_cookie_host_prefix c) (c_cookie_host_prefix prev) True)"
    "c_cookie_samesite (merged_values prev c) = Some (own_or_outer (c_cookie_samesite c) (c_cookie_samesite prev) SAMESITE_LAX)"
    "c_bind_ip (merged_values prev c) = Some (own_or_outer (c_bind_ip c) (c_bind_ip prev) True)"
    "c_bind_ua (merged_values prev c) = Some (own_or_outer (c_bind_ua c) (c_bind_ua prev) True)"
    "c_failure_limit (merged_values prev c) = Some (own_or_outer (c_failure_limit c) (c_failure_limit prev) 0)"
    "c_failure_window (merged_values prev c) = Some ((if own_or_outer (c_failure_limit c) (c_failure_limit prev) 0 > 0 \<and> (own_or_outer (c_failure_window c) (c_failure_window prev) 60 < 1 \<or> own_or_outer (c_failure_window c) (c_failure_window prev) 60 > 3600) then 60 else own_or_outer (c_failure_window c) (c_failure_window prev) 60))"
    "c_failure_ban_time (merged_values prev c) = Some ((if own_or_outer (c_failure_limit c) (c_failure_limit prev) 0 > 0 \<and> (own_or_outer (c_failure_ban_time c) (c_failure_ban_time prev) 300 < 1 \<or> own_or_outer (c_failure_ban_time c) (c_failure_ban_time prev) 300 > 86400) then 300 else own_or_outer (c_failure_ban_time c) (c_failure_ban_time prev) 300))"
    "c_nonce_storage (merged_values prev c) = Some (own_or_outer (c_nonce_storage c) (c_nonce_storage prev) NONCE_MEMORY)"
    "c_nonce_addr (merged_values prev c) = Some (own_or_outer (c_nonce_addr c) (c_nonce_addr prev) [])"
    "c_nonce_key_prefix (merged_values prev c) = Some (own_or_outer (c_nonce_key_prefix c) (c_nonce_key_prefix prev) ''pgp:'')"
    "c_nonce_tls (merged_values prev c) = Some (own_or_outer (c_nonce_tls c) (c_nonce_tls prev) False)"
    "c_nonce_tls_verify (merged_values prev c) = Some (own_or_outer (c_nonce_tls_verify c) (c_nonce_tls_verify prev) True)"
    "c_nonce_tls_ca (merged_values prev c) = Some (own_or_outer (c_nonce_tls_ca c) (c_nonce_tls_ca prev) [])"
    "c_nonce_tls_name (merged_values prev c) = Some (own_or_outer (c_nonce_tls_name c) (c_nonce_tls_name prev) [])"
    "c_revocation_list (merged_values prev c) = Some (own_or_outer (c_revocation_list c) (c_revocation_list prev) [])"
    "c_revoc_fail_open (merged_values prev c) = Some (own_or_outer (c_revoc_fail_open c) (c_revoc_fail_open prev) False)"
    "c_revoc_max_size (merged_values prev c) = Some (own_or_outer (c_revoc_max_size c) (c_revoc_max_size prev) 1048576)"
    "c_gpg_timeout (merged_values prev c) = Some (max 1000 (min 60000 (own_or_outer (c_gpg_timeout c) (c_gpg_timeout prev) 2000)))"
    "c_max_body_size (merged_values prev c) = Some (own_or_outer (c_max_body_size c) (c_max_body_size prev) 16384)"
    "c_gpg_path (merged_values prev c) = Some (own_or_outer (c_gpg_path c) (c_gpg_path prev) ''/usr/bin/gpg'')"
    "c_disable_core_dumps (merged_values prev c) = Some (own_or_outer (c_disable_core_dumps c) (c_disable_core_dumps prev) True)"
    "c_mlock_required (merged_values prev c) = Some (own_or_outer (c_mlock_required c) (c_mlock_required prev) False)"
    "c_nonce_zone_size (merged_values prev c) = Some (own_or_outer (c_nonce_zone_size c) (c_nonce_zone_size prev) 8388608)"
    "c_failure_zone_size (merged_values prev c) = Some (own_or_outer (c_failure_zone_size c) (c_failure_zone_size prev) 1048576)"
    "c_thread_pool_name (merged_values prev c) = Some (own_or_outer (c_thread_pool_name c) (c_thread_pool_name prev) ''default'')"
  by (simp_all add: merged_defs NGX_HTTP_PGP_NONCE_ZONE_SIZE_def NGX_HTTP_PGP_THROTTLE_ZONE_SIZE_def)

lemma merged_result:
  assumes "merge_loc_conf ngx env prev c = (l, Some d)"
  shows "enable (resolve d) = own_or_outer (c_enable c) (c_enable prev) False"
    "keyring (resolve d) = own_or_outer (c_keyring c) (c_keyring prev) ''/etc/nginx/pubkeys.gpg''"
    "challenge_timeout (resolve d) = max 5 (min 3600 (own_or_outer (c_challenge_timeout c) (c_challenge_timeout prev) 120))"
    "session_timeout (resolve d) = min 2592000 (own_or_outer (c_session_timeout c) (c_session_timeout prev) 3600)"
    "cookie_secure (resolve d) = own_or_outer (c_cookie_secure c) (c_cookie_secure prev) True"
    "cookie_host_prefix (resolve d) = own_or_outer (c_cookie_host_prefix c) (c_cookie_host_prefix prev) True"
    "cookie_samesite (resolve d) = own_or_outer (c_cookie_samesite c) (c_cookie_samesite prev) SAMESITE_LAX"
    "bind_ip (resolve d) = own_or_outer (c_bind_ip c) (c_bind_ip prev) True"
    "bind_ua (resolve d) = own_or_outer (c_bind_ua c) (c_bind_ua prev) True"
    "failure_limit (resolve d) = own_or_outer (c_failure_limit c) (c_failure_limit prev) 0"
    "failure_window (resolve d) = (if failure_limit (resolve d) > 0 \<and> (own_or_outer (c_failure_window c) (c_failure_window prev) 60 < 1 \<or> own_or_outer (c_failure_window c) (c_failure_window prev) 60 > 3600) then 60 else own_or_outer (c_failure_window c) (c_failure_window prev) 60)"
    "failure_ban_time (resolve d) = (if failure_limit (resolve d) > 0 \<and> (own_or_outer (c_failure_ban_time c) (c_failure_ban_time prev) 300 < 1 \<or> own_or_outer (c_failure_ban_time c) (c_failure_ban_time prev) 300 > 86400) then 300 else own_or_outer (c_failure_ban_time c) (c_failure_ban_time prev) 300)"
    "nc_storage (nonce_backend (resolve d)) = own_or_outer (c_nonce_storage c) (c_nonce_storage prev) NONCE_MEMORY"
    "nc_addr (nonce_backend (resolve d)) = own_or_outer (c_nonce_addr c) (c_nonce_addr prev) []"
    "nc_key_prefix (nonce_backend (resolve d)) = own_or_outer (c_nonce_key_prefix c) (c_nonce_key_prefix prev) ''pgp:''"
    "nc_tls (nonce_backend (resolve d)) = own_or_outer (c_nonce_tls c) (c_nonce_tls prev) False"
    "nc_tls_verify (nonce_backend (resolve d)) = own_or_outer (c_nonce_tls_verify c) (c_nonce_tls_verify prev) True"
    "nc_tls_ca (nonce_backend (resolve d)) = own_or_outer (c_nonce_tls_ca c) (c_nonce_tls_ca prev) []"
    "nc_tls_name (nonce_backend (resolve d)) = own_or_outer (c_nonce_tls_name c) (c_nonce_tls_name prev) []"
    "revocation_list (resolve d) = own_or_outer (c_revocation_list c) (c_revocation_list prev) []"
    "revoc_fail_open (resolve d) = own_or_outer (c_revoc_fail_open c) (c_revoc_fail_open prev) False"
    "revoc_max_size (resolve d) = own_or_outer (c_revoc_max_size c) (c_revoc_max_size prev) 1048576"
    "gpg_timeout (resolve d) = int (max 1000 (min 60000 (own_or_outer (c_gpg_timeout c) (c_gpg_timeout prev) 2000)))"
    "max_body_size (resolve d) = own_or_outer (c_max_body_size c) (c_max_body_size prev) 16384"
    "gpg_path (resolve d) = own_or_outer (c_gpg_path c) (c_gpg_path prev) ''/usr/bin/gpg''"
    "the (c_disable_core_dumps d) = own_or_outer (c_disable_core_dumps c) (c_disable_core_dumps prev) True"
    "the (c_mlock_required d) = own_or_outer (c_mlock_required c) (c_mlock_required prev) False"
    "the (c_nonce_zone_size d) = own_or_outer (c_nonce_zone_size c) (c_nonce_zone_size prev) 8388608"
    "the (c_failure_zone_size d) = own_or_outer (c_failure_zone_size c) (c_failure_zone_size prev) 1048576"
    "the (c_thread_pool_name d) = own_or_outer (c_thread_pool_name c) (c_thread_pool_name prev) ''default''"
  by (simp_all only: resolve_def loc_conf.simps nonce_conf.simps str_of_def settings_fields [OF merge_keeps_settings [OF assms]]
      merged_values_fields option.sel option.case)

section \<open>Properties\<close>

text \<open>
  C16: what a location runs with.  Every setting that the request code reads, other than the secrets, the Redis password,
  the zones and the thread pool, is the location's own value, else the one of the enclosing level, else the documented
  default.  Six of them are adjusted: a challenge lives 5 seconds to one hour, a session at
  most 30 days (zero, no expiry, is kept), gpg gets 1 to 60 seconds; and with the throttle on, a window
  outside 1 second to one hour becomes 60 seconds and a ban outside 1 second to one day becomes 300 seconds.
\<close>

theorem merged_settings:
  assumes "merge_loc_conf ngx env prev c = (l, Some d)"
  defines "p \<equiv> resolve d" and "win \<equiv> own_or_outer (c_failure_window c) (c_failure_window prev) 60"
    and "ban \<equiv> own_or_outer (c_failure_ban_time c) (c_failure_ban_time prev) 300"
  shows "enable p = own_or_outer (c_enable c) (c_enable prev) False \<and>
     keyring p = own_or_outer (c_keyring c) (c_keyring prev) ''/etc/nginx/pubkeys.gpg'' \<and>
     challenge_timeout p = max 5 (min 3600 (own_or_outer (c_challenge_timeout c) (c_challenge_timeout prev) 120)) \<and>
     session_timeout p = min 2592000 (own_or_outer (c_session_timeout c) (c_session_timeout prev) 3600) \<and>
     cookie_secure p = own_or_outer (c_cookie_secure c) (c_cookie_secure prev) True \<and>
     cookie_host_prefix p = own_or_outer (c_cookie_host_prefix c) (c_cookie_host_prefix prev) True \<and>
     cookie_samesite p = own_or_outer (c_cookie_samesite c) (c_cookie_samesite prev) SAMESITE_LAX \<and>
     bind_ip p = own_or_outer (c_bind_ip c) (c_bind_ip prev) True \<and>
     bind_ua p = own_or_outer (c_bind_ua c) (c_bind_ua prev) True \<and>
     failure_limit p = own_or_outer (c_failure_limit c) (c_failure_limit prev) 0 \<and>
     failure_window p = (if failure_limit p > 0 \<and> (win < 1 \<or> win > 3600) then 60 else win) \<and>
     failure_ban_time p = (if failure_limit p > 0 \<and> (ban < 1 \<or> ban > 86400) then 300 else ban) \<and>
     nc_storage (nonce_backend p) = own_or_outer (c_nonce_storage c) (c_nonce_storage prev) NONCE_MEMORY \<and>
     nc_addr (nonce_backend p) = own_or_outer (c_nonce_addr c) (c_nonce_addr prev) [] \<and>
     nc_key_prefix (nonce_backend p) = own_or_outer (c_nonce_key_prefix c) (c_nonce_key_prefix prev) ''pgp:'' \<and>
     nc_tls (nonce_backend p) = own_or_outer (c_nonce_tls c) (c_nonce_tls prev) False \<and>
     nc_tls_verify (nonce_backend p) = own_or_outer (c_nonce_tls_verify c) (c_nonce_tls_verify prev) True \<and>
     nc_tls_ca (nonce_backend p) = own_or_outer (c_nonce_tls_ca c) (c_nonce_tls_ca prev) [] \<and>
     nc_tls_name (nonce_backend p) = own_or_outer (c_nonce_tls_name c) (c_nonce_tls_name prev) [] \<and>
     revocation_list p = own_or_outer (c_revocation_list c) (c_revocation_list prev) [] \<and>
     revoc_fail_open p = own_or_outer (c_revoc_fail_open c) (c_revoc_fail_open prev) False \<and>
     revoc_max_size p = own_or_outer (c_revoc_max_size c) (c_revoc_max_size prev) 1048576 \<and>
     gpg_timeout p = int (max 1000 (min 60000 (own_or_outer (c_gpg_timeout c) (c_gpg_timeout prev) 2000))) \<and>
     max_body_size p = own_or_outer (c_max_body_size c) (c_max_body_size prev) 16384 \<and>
     gpg_path p = own_or_outer (c_gpg_path c) (c_gpg_path prev) ''/usr/bin/gpg''"
  by (simp only: p_def win_def ban_def merged_result [OF assms(1)] simp_thms)

text \<open>Start-up on a system where everything works, for a location that only switches the module on.\<close>

definition sample_secret_file :: secret_file where
  "sample_secret_file = \<lparr>sf_open_ok = True, sf_info = Some (18, 384), sf_alloc_ok = True, sf_read = Some (''0123456789abcdef'' @ CRLF)\<rparr>"

definition sample_cenv :: conf_env where
  "sample_cenv = \<lparr>ngx_threads = True, setrlimit_ok = True, thread_pool_add_ok = (\<lambda>name. True), shm_nonce = Some False,
     shm_failure = Some False, zone_ctx_alloc_ok = True, conf_full_name = Some, secret_at = (\<lambda>path. sample_secret_file),
     secret_alloc_ok = True, rand_secret = Some (replicate 32 CHR ''r''), mlock_ok = (\<lambda>s. True)\<rparr>"

definition sample_on :: lconf where
  "sample_on = unset_conf\<lparr>c_enable := Some True, c_challenge_timeout := Some 1, c_failure_limit := Some 3,
     c_failure_window := Some 1800, c_failure_ban_time := Some 0\<rparr>"

lemmas config_eval = merged_defs own_or_outer_def enabled_steps_def enabled_step_defs lock_secrets_def mlock_secret_def
  load_named_def str_of_def is_absolute_def nonce_add_zone_def throttle_add_zone_def sample_cenv_def unset_conf_def

lemma snd_merge:
  "snd (merge_loc_conf ngx env prev c) =
     (if the (c_enable (merged_values prev c)) then snd (run_steps (enabled_steps ngx env prev) (merged_values prev c))
      else Some (merged_values prev c))"
  by (simp add: merge_loc_conf_def merge_values_result)

lemma sample_merge: "\<exists>l d. merge_loc_conf ngx sample_cenv unset_conf sample_on = (l, Some d) \<and> c_enable d = Some True"
proof -
  have "\<exists>d. snd (merge_loc_conf ngx sample_cenv unset_conf sample_on) = Some d"
    by (simp add: snd_merge sample_on_def config_eval)
  then obtain l d where m: "merge_loc_conf ngx sample_cenv unset_conf sample_on = (l, Some d)" by (metis prod.collapse)
  then show ?thesis using settings_fields(1) [OF merge_keeps_settings [OF m]] by (simp add: sample_on_def unset_conf_def merged_defs own_or_outer_def)
qed

theorem merged_settings_witness:
  "\<exists>l d. merge_loc_conf ngx_ref sample_cenv unset_conf sample_on = (l, Some d) \<and> challenge_timeout (resolve d) = 5 \<and>
     cookie_secure (resolve d) \<and> failure_window (resolve d) = 1800 \<and> failure_ban_time (resolve d) = 300 \<and>
     gpg_path (resolve d) = ''/usr/bin/gpg'' \<and> nc_key_prefix (nonce_backend (resolve d)) = ''pgp:''"
proof -
  obtain l d where m: "merge_loc_conf ngx_ref sample_cenv unset_conf sample_on = (l, Some d)" using sample_merge by blast
  from merged_settings [OF m] have "challenge_timeout (resolve d) = 5 \<and> cookie_secure (resolve d) \<and>
     failure_window (resolve d) = 1800 \<and> failure_ban_time (resolve d) = 300 \<and>
     gpg_path (resolve d) = ''/usr/bin/gpg'' \<and> nc_key_prefix (nonce_backend (resolve d)) = ''pgp:''"
    by (simp add: sample_on_def unset_conf_def own_or_outer_def)
  then show ?thesis using m by blast
qed

text \<open>
  C15: an enabled location that nginx starts with is able to protect: the keyring and gpg are absolute paths, there is a
  secret for the MACs, a single-use store that is configured has its zone and Redis its address, and a
  throttle that is configured has its zone.
\<close>

theorem enabled_conf_sound:
  assumes "merge_loc_conf ngx env prev c = (l, Some d)" "enable (resolve d)" "rand_secret env \<noteq> Some []"
  defines "p \<equiv> resolve d"
  shows "is_absolute (keyring p) \<and> is_absolute (gpg_path p) \<and> secret p \<noteq> [] \<and>
     (nc_storage (nonce_backend p) \<noteq> NONCE_NONE \<longrightarrow> has_nonce_zone p) \<and>
     (nc_storage (nonce_backend p) = NONCE_REDIS \<longrightarrow> nc_addr (nonce_backend p) \<noteq> []) \<and>
     (failure_limit p > 0 \<longrightarrow> has_failure_zone p)"
proof -
  have "the (c_enable (merged_values prev c))"
    using assms(2) settings_fields(1) [OF merge_keeps_settings [OF assms(1)]] by (simp add: resolve_def)
  then obtain l' where r: "run_steps (enabled_steps ngx env prev) (merged_values prev c) = (l', Some d)"
    using merge_cases [OF assms(1)] by blast
  show ?thesis
    using enabled_checks [OF r] enabled_secret [OF r assms(3)] enabled_zone [OF r] enabled_throttle [OF r]
    by (cases "the (c_nonce_storage d)") (simp_all add: p_def resolve_def)
qed

theorem enabled_conf_sound_witness:
  "\<exists>l d. merge_loc_conf ngx_ref sample_cenv unset_conf sample_on = (l, Some d) \<and> has_failure_zone (resolve d) \<and> secret (resolve d) \<noteq> []"
proof -
  obtain l d where m: "merge_loc_conf ngx_ref sample_cenv unset_conf sample_on = (l, Some d)" "c_enable d = Some True"
    using sample_merge by blast
  then have "c_failure_limit d = Some 3"
    using settings_fields(11) [OF merge_keeps_settings [OF m(1)]] by (simp add: sample_on_def unset_conf_def merged_defs own_or_outer_def)
  then have "has_failure_zone (resolve d) \<and> secret (resolve d) \<noteq> []"
    using enabled_conf_sound [OF m(1)] m(2) by (simp add: resolve_def sample_cenv_def)
  then show ?thesis using m by blast
qed

text \<open>
  C33: a secret is read exactly from a file that opens, holds 1 to 65536 bytes and some content, and it is the content
  without the white space at its end.
\<close>

theorem load_secret_correct:
  "(\<exists>l. load_secret ngx env path = (l, Some s)) \<longleftrightarrow>
     sf_open_ok (secret_at env path) \<and> sf_alloc_ok (secret_at env path) \<and>
     (\<exists>sz mode buf ws. sf_info (secret_at env path) = Some (sz, mode) \<and> 0 < sz \<and> sz \<le> 65536 \<and>
        sf_read (secret_at env path) = Some buf \<and> take (nat sz) buf = s @ ws \<and> list_all is_space ws \<and>
        s \<noteq> [] \<and> is_space (last s) = False)"
  (is "?lhs \<longleftrightarrow> ?rhs")
proof
  assume ?lhs
  then obtain l where l: "load_secret ngx env path = (l, Some s)" by blast
  from load_secret_Some [OF l] show ?rhs using trim_end_spec by metis
next
  assume ?rhs
  then obtain sz mode buf where f: "sf_open_ok (secret_at env path)" "sf_alloc_ok (secret_at env path)"
      "sf_info (secret_at env path) = Some (sz, mode)" "0 < sz" "sz \<le> 65536" "sf_read (secret_at env path) = Some buf"
      "trim_end (take (nat sz) buf) = s" "s \<noteq> []" using trim_end_spec by metis
  then have "snd (load_secret ngx env path) = Some s" using load_secret_result [OF f(1-6), of ngx] by simp
  then show ?lhs by (metis prod.collapse)
qed

text \<open>
  C34: locations share the secret of the enclosing level unless they name another file, so a session is good for all of
  them; but the secret that is still accepted during a rotation is not shared: an enabled location below a server
  that names a previous secret runs without one unless it repeats the directive.
\<close>

theorem secret_inheritance:
  assumes "merge_loc_conf ngx env prev c = (l, Some d)" "enable (resolve d)" "c_secret prev \<noteq> []"
  shows "(c_secret_file c = None \<longrightarrow> secret (resolve d) = c_secret prev) \<and>
     (c_secret_previous_file c = None \<and> c_secret_previous c = [] \<and> str_of (c_secret_previous_file prev) \<noteq> [] \<longrightarrow>
        secret_previous (resolve d) = [])"
proof -
  have "the (c_enable (merged_values prev c))"
    using assms(2) settings_fields(1) [OF merge_keeps_settings [OF assms(1)]] by (simp add: resolve_def)
  then obtain l' where r: "run_steps (enabled_steps ngx env prev) (merged_values prev c) = (l', Some d)"
    using merge_cases [OF assms(1)] by blast
  have "c_secret_file c = None \<Longrightarrow> str_of (c_secret_file (merged_values prev c)) = str_of (c_secret_file prev)"
    by (simp add: merged_defs own_or_outer_def str_of_def split: option.split)
  moreover have "c_secret_previous_file (merged_values prev c) = c_secret_previous_file c"
    "c_secret_previous (merged_values prev c) = c_secret_previous c" by (simp_all add: merged_defs)
  ultimately show ?thesis
    using inherit_secret [OF r assms(3)] no_previous_file [OF r] by (auto simp: resolve_def str_of_def split: option.splits)
qed

text \<open>A server with a current and a previous secret, and a location in it.\<close>

definition sample_server :: lconf where
  "sample_server = unset_conf\<lparr>c_enable := Some True, c_secret_file := Some ''/s'', c_secret := ''new secret'',
     c_secret_previous_file := Some ''/p'', c_secret_previous := ''old secret''\<rparr>"

theorem secret_inheritance_witness:
  "\<exists>l d. merge_loc_conf ngx_ref sample_cenv sample_server unset_conf = (l, Some d) \<and> secret (resolve d) = ''new secret'' \<and>
     secret_previous (resolve d) = []"
proof -
  have "\<exists>d. snd (merge_loc_conf ngx_ref sample_cenv sample_server unset_conf) = Some d"
    by (simp add: snd_merge sample_server_def config_eval)
  then obtain l d where m: "merge_loc_conf ngx_ref sample_cenv sample_server unset_conf = (l, Some d)" by (metis prod.collapse)
  moreover have "enable (resolve d)"
    using settings_fields(1) [OF merge_keeps_settings [OF m]] by (simp add: sample_server_def unset_conf_def merged_defs own_or_outer_def resolve_def)
  ultimately have "secret (resolve d) = ''new secret'' \<and> secret_previous (resolve d) = []"
    using secret_inheritance [OF m] by (simp add: sample_server_def unset_conf_def str_of_def)
  then show ?thesis using m by blast
qed

section \<open>Directives and the settings they control\<close>






















end
