(* ===== verification/Spec2Isabelle.thy ===== *)
theory Spec2Isabelle
  imports Auth_System Config
begin

text \<open>
  \<^bold>\<open>The program.\<close>  \<open>ngx_http_pgp_auth_module\<close> is an nginx module that protects a location with PGP
  signatures.  A client without a session gets a page with a challenge; it signs the challenge and posts the clear-signed
  message; the module runs gpg on it, checks that the key is not revoked, that the challenge in the signed text is its own
  (HMAC), unexpired and unused, and then sets a session cookie, which is again only HMAC-signed.  The state that is
  shared between worker processes is small: a zone with the nonces of used challenges (or a Redis server), and a zone
  with failure counts per client address.  Verifications run in the worker or on a thread pool.

  \<^bold>\<open>The theories\<close> follow the sources under \<open>src/src\<close>, lowest layer first.

  \<^item> \<open>Pgp_Prelude\<close>: byte strings, time, return codes, log levels, the C library functions on buffers, shared lemmas.
  \<^item> \<open>Ngx_Api\<close>: the functions of nginx and OpenSSL that the module calls (\<open>ngx_crc32_short\<close>, \<open>ngx_atotm\<close>, \<open>ngx_strlchr\<close>,
    formatting, HMAC) as a record of parameters with their documented laws as the locale \<open>ngx_core_api\<close>, and a
    concrete instance that satisfies them, on which all examples run.
  \<^item> \<open>Shm_Zone\<close>: the tree and queue in shared memory that \<open>nonce.c\<close> and \<open>throttle.c\<close> both build (insertion callback, lookup, link,
    unlink) over a slab allocator given by the locale \<open>ngx_shm_api\<close>; the invariant \<open>zone_ok\<close> and what each operation does to the
    stored nodes.
  \<^item> \<open>Gpg\<close>: \<open>gpg.c\<close>, from the throwaway home directory to the verdict; what the operating system answers is part of the
    environment, what the module does to it is recorded as a list of effects.
  \<^item> \<open>Nonce_Memory\<close>, \<open>Redis\<close>, \<open>Nonce_Store\<close>: \<open>nonce.c\<close>, the two backends and their combination; the contract of a single-use
    store is the locale \<open>single_use_store\<close>, interpreted on the shared zone.
  \<^item> \<open>Throttle\<close>: \<open>throttle.c\<close>, with the per-address counter as its specification.
  \<^item> \<open>Loc_Conf\<close>, \<open>Revocation\<close>, \<open>Session\<close>, \<open>Challenge\<close>, \<open>Form\<close>, \<open>Login\<close>: the request side of \<open>module.c\<close>: the merged configuration,
    requests, workers and responses; \<open>is_revoked\<close>; MACs, cookie check and grant; the login page and \<open>validate_consume\<close>;
    reading and decoding the form; \<open>verify_post\<close>, \<open>verify_finalize\<close>, the thread task with its completion and watchdog,
    \<open>auth_submit\<close> and \<open>auth_handler\<close>.
  \<^item> \<open>Config\<close>: the configuration side of \<open>module.c\<close>: directive table, creation and merging, secrets, registration.
  \<^item> \<open>Auth_System\<close>: any number of workers, requests, threads and completions, interleaved; one rule of the step relation per
    entry point that nginx calls.

  \<^bold>\<open>Correspondence.\<close>  A C struct is a record, a pointer that may be NULL an option, a buffer with its length a list of
  bytes.  Functions keep their names without the prefix \<open>ngx_http_pgp_\<close>, take the state they change as an
  argument and return it changed, together with the return code.  Every early return and every failing allocation is a
  branch.  What the operating system, Redis or gpg do is read from an environment record that is an argument; where a
  call can be repeated the environment holds the list of its answers.  Log lines are kept with their text.

  \<^bold>\<open>What is shown.\<close>  \<open>Gpg\<close>: a signature counts as good exactly by the lines of a status stream that was not
  truncated by its buffer (it may have been ended by the deadline), which fingerprint is taken from them, that only the configured
  program is run with exactly the listed arguments, and that everything is cleaned up on every path.  \<open>Nonce_Memory\<close>, \<open>Nonce_Store\<close>, \<open>Redis\<close>: the zone
  implements a set of spent nonces, the store fails closed, the Redis dialogue accepts only after each command had its own
  positive reply, and nodes that share a server accept a nonce once.  The server is specified by what it answers to
  the bytes it was sent so far, so a reply may be late, cut off or lost.  \<open>Throttle\<close>: bans happen exactly when they should.  \<open>Revocation\<close>, \<open>Session\<close>,
  \<open>Challenge\<close>, \<open>Form\<close>: exact conditions for acceptance, round trips of cookie and challenge, and the in-place decoder against a decoder
  on lists.  \<open>Login\<close>: the synchronous and the threaded path carry out the same decision.  \<open>Auth_System\<close>: in every
  interleaving a request is finalized at most once, no cookie is sent without a login behind it, and a challenge is accepted
  once.  \<open>Config\<close>: which setting each directive governs, the merged value of every setting, and that an enabled location that nginx starts with is able to
  protect.  This theory joins the configuration with the running system.  Some theorems show where the code does less than
  it says: a nonce is forgotten in the second of its expiry, the separator byte of the MAC input is not excluded
  from its parts, the throttle window does not slide, a previous secret is not inherited.

  \<^bold>\<open>Bounds and fuel.\<close>  Loops are recursive functions with termination proofs or structural recursion; loops over answers of the
  operating system end when the list of answers ends, and the theorems about them say what happened until then.  The
  only fuel is in \<open>resp_stream\<close>, a specification function, where the number of bytes is enough.  Times are unbounded
  integers, and so is the failure count of an address, a machine word in the code that would wrap only after 2^64 failures of one address in one window; where a round trip needs a 64-bit \<open>time_t\<close> the bound \<open>time_max\<close> is a hypothesis.  Lengths and keys in
  shared memory are words of their width.

  \<^bold>\<open>Not modelled.\<close>  The colours of the red-black tree and its rebalancing, the slab allocator, HMAC and TLS are
  nginx and OpenSSL code and appear only through their laws.  Every critical section of a zone is one step, since it runs
  under the zone's lock.  Steps of different workers are otherwise interleaved between calls of the entry points, not
  within them, and read one clock that never goes back, while nginx caches the time per worker; all requests of a run are for one location; the reads of throttle nodes after unlocking, which only go into log lines, are taken from the
  locked state.  A header whose value could not be allocated has the empty value.  nginx's slot functions for directives, its
  header parsing and its request life cycle outside the module are parameters.  The tests, fuzz harnesses, packaging, scripts and
  example configurations are not part of the module.
\<close>

section \<open>From the configuration file to single use\<close>

text \<open>A configuration that merges to the sample configuration of the request theories.\<close>

definition sample_loc :: lconf where
  "sample_loc = unset_conf\<lparr>c_enable := Some True, c_failure_limit := Some 3, c_nonce_addr := Some ''10.0.0.5:6379'',
     c_nonce_password := Some ''s3cret'', c_nonce_tls := Some True, c_nonce_tls_name := Some ''redis.internal'',
     c_revocation_list := Some ''/etc/nginx/revoked'', c_secret_file := Some ''/etc/nginx/secret'',
     c_thread_pool_name := Some ''off''\<rparr>"

lemma sample_cenv_fields:
  "ngx_threads sample_cenv" "setrlimit_ok sample_cenv" "thread_pool_add_ok sample_cenv name" "shm_nonce sample_cenv = Some False"
  "shm_failure sample_cenv = Some False" "zone_ctx_alloc_ok sample_cenv" "conf_full_name sample_cenv path = Some path"
  "secret_at sample_cenv path = sample_secret_file" "secret_alloc_ok sample_cenv" "mlock_ok sample_cenv s"
  "rand_secret sample_cenv = Some (replicate 32 CHR ''r'')"
  by (simp_all add: sample_cenv_def)

lemma sample_load: "snd (load_secret ngx sample_cenv path) = Some ''0123456789abcdef''"
proof -
  have "trim_end (take 18 (''0123456789abcdef'' @ CRLF)) = ''0123456789abcdef''" by (simp add: trim_end_def is_space_def)
  then show ?thesis
    using load_secret_result [of sample_cenv path 18 384 "''0123456789abcdef'' @ CRLF" ngx]
    by (simp add: sample_cenv_def sample_secret_file_def)
qed

lemma sample_loc_merge: "\<exists>l d. merge_loc_conf ngx sample_cenv unset_conf sample_loc = (l, Some d) \<and> resolve d = sample_conf"
proof -
  let ?s = "''0123456789abcdef''"
  obtain l1 where load: "load_secret ngx sample_cenv ''/etc/nginx/secret'' = (l1, Some ?s)"
    using sample_load [of ngx "''/etc/nginx/secret''"] by (metis prod.collapse)
  have named: "load_named ngx sample_cenv ''/etc/nginx/secret'' = (l1, Some (''/etc/nginx/secret'', ?s))"
    by (simp add: load_named_def load and_then_def sample_cenv_fields)
  obtain d where d: "snd (merge_loc_conf ngx sample_cenv unset_conf sample_loc) = Some d" "resolve d = sample_conf"
    by (simp add: snd_merge sample_loc_def merged_defs own_or_outer_def unset_conf_def enabled_steps_def enabled_step_defs
        lock_secrets_def mlock_secret_def str_of_def is_absolute_def nonce_add_zone_def throttle_add_zone_def sample_cenv_fields
        named starts_with_def same_text_def)
      (simp add: resolve_def str_of_def sample_conf_def sample_nc_def)
  then show ?thesis by (metis prod.collapse)
qed

text \<open>
  C1: from the configuration file to single use.  For every location that nginx starts with (its configuration merged without
  error, the module enabled, the memory backend configured or left at its default), in every interleaving of
  requests, workers, threads and completions, a challenge that was accepted is not accepted
  again before it expires.
\<close>

theorem configured_single_use:
  assumes "merge_loc_conf ngx cenv prev c = (l, Some d)" "enable (resolve d)"
    and "own_or_outer (c_nonce_storage c) (c_nonce_storage prev) NONCE_MEMORY = NONCE_MEMORY"
    and "sys_run ngx shm (resolve d) s0 tr s" "ngx_shm_api shm live"
    and "zone_ok (ngx_crc32_short ngx) live (sys_nonces s0)" "sys_conns s0 = (\<lambda>i. None)"
    and "p < q" "q < length tr" "accepts ngx shm (resolve d) (tr ! p) n e" "sys_now (fst (tr ! q)) < e"
  shows "\<not> accepts ngx shm (resolve d) (tr ! q) n e'"
proof -
  note same = settings_fields [OF merge_keeps_settings [OF assms(1)]]
  have mem: "c_nonce_storage d = Some NONCE_MEMORY" using same(10) assms(3) by (simp add: merged_defs)
  have "the (c_enable (merged_values prev c))" using same(1) assms(2) by (simp add: resolve_def)
  then obtain l' where "run_steps (enabled_steps ngx cenv prev) (merged_values prev c) = (l', Some d)"
    using merge_cases [OF assms(1)] by blast
  from enabled_zone [OF this] mem have "nc_storage (nonce_backend (resolve d)) = NONCE_MEMORY" "has_nonce_zone (resolve d)"
    by (simp_all add: resolve_def)
  then show ?thesis by (rule run_accepts_once [OF assms(4,5) _ _ assms(6-11)])
qed

theorem configured_single_use_witness:
  "\<exists>l d tr s1 s2. merge_loc_conf ngx_ref sample_cenv unset_conf sample_loc = (l, Some d) \<and>
     sys_run ngx_ref shm_ref (resolve d) sample_sys
       (tr @ [(sample_two, Submit 0 (sample_login [])), (s1, Submit 1 (sample_login []))]) s2 \<and>
     accepts ngx_ref shm_ref (resolve d) (sample_two, Submit 0 (sample_login [])) sample_nonce 1120 \<and>
     \<not> accepts ngx_ref shm_ref (resolve d) (s1, Submit 1 (sample_login [])) sample_nonce 1120"
proof -
  obtain l d where d: "merge_loc_conf ngx_ref sample_cenv unset_conf sample_loc = (l, Some d)" "resolve d = sample_conf"
    using sample_loc_merge by blast
  obtain tr s1 s2 where run: "sys_run ngx_ref shm_ref sample_conf sample_sys
       (tr @ [(sample_two, Submit 0 (sample_login [])), (s1, Submit 1 (sample_login []))]) s2" "sys_now s1 = 1010"
    using sample_replay_run by blast
  let ?tr = "tr @ [(sample_two, Submit 0 (sample_login [])), (s1, Submit 1 (sample_login []))]"
  have "\<not> accepts ngx_ref shm_ref (resolve d) (?tr ! Suc (length tr)) sample_nonce 1120"
  proof (rule configured_single_use [OF d(1), where p = "length tr" and e = 1120])
    show "zone_ok (ngx_crc32_short ngx_ref) live_ref (sys_nonces sample_sys)" using sample_zone_ok by (simp add: sample_sys_def)
  qed (use d run sample_accepts ref_shm.ngx_shm_api_axioms in
      \<open>simp_all add: nth_append sample_sys_def sample_loc_def unset_conf_def own_or_outer_def\<close>)
  then show ?thesis using d run sample_accepts by (auto simp: nth_append)
qed

end
